theory Spec2Isabelle
  imports Complex_Main "HOL-Library.Multiset"
begin

section \<open>Tables\<close>

text \<open>
  The script \<^verbatim>\<open>followers/data_classification.py\<close> is a straight line of calls into pandas,
  tf.data and Keras. Each call is modelled by a function of the same name whose body is the
  documented behaviour of the library call, restricted to the arguments the script passes.
  Random choices of the libraries are parameters: a seeded generator is a function of its
  seed, an unseeded one is an arbitrary stream of numbers.
\<close>

datatype error =
  KeyError string
  | InvalidArgument string
  | MissingData string
  | ParserError string

text \<open>
  A \<^verbatim>\<open>DataFrame\<close>: its column names and its rows, each row an index label with the cells
  of the row. The type of the labels is a parameter: \<^verbatim>\<open>sample\<close> and \<^verbatim>\<open>drop\<close> work on any index.
\<close>

type_synonym 'v cells = "string \<rightharpoonup> 'v"

record ('l, 'v) dataframe =
  columns :: "string list"
  rows :: "('l \<times> 'v cells) list"

definition index :: "('l, 'v) dataframe \<Rightarrow> 'l list" where
  "index df = map fst (rows df)"

definition len :: "('l, 'v) dataframe \<Rightarrow> nat" where
  "len df = length (rows df)"

text \<open>
  Line 61, \<^verbatim>\<open>pd.read_csv(file_url)\<close>, called without \<^verbatim>\<open>index_col\<close> and without \<^verbatim>\<open>names\<close>. The
  arguments are the names of the header line and the data records of the file, each the
  list of its fields; \<open>na\<close> is the value that stands for a missing field.

  pandas compares the first data record with the header. When that record has \<open>k\<close> more
  fields than the header has names, the first \<open>k\<close> fields of every record are not data:
  they become the index label of the row, and such labels may repeat. Otherwise \<open>k = 0\<close>
  and the rows are labelled \<open>0, 1, ..., N-1\<close>. A record with more fields than the header
  and the leading columns together is a parser error; a shorter record is filled up with
  missing fields.
\<close>

definition leading_cols :: "string list \<Rightarrow> 'v list list \<Rightarrow> nat" where
  "leading_cols header records =
     (case records of [] \<Rightarrow> 0 | r # _ \<Rightarrow> length r - length header)"

definition read_csv ::
  "'v \<Rightarrow> string list \<Rightarrow> 'v list list \<Rightarrow> error + (nat + 'v list, 'v) dataframe" where
  "read_csv na header records =
     (let k = leading_cols header records;
          width = length header + k
      in if list_ex (\<lambda>r. width < length r) records
         then Inl (ParserError ''Error tokenizing data'')
         else Inr \<lparr>columns = header,
                   rows = map (\<lambda>(i, r).
                            let fields = r @ replicate (width - length r) na
                            in (if k = 0 then Inl i else Inr (take k fields),
                                map_of (zip header (drop k fields))))
                          (zip [0..<length records] records)\<rparr>)"

subsection \<open>Train and validation split\<close>

text \<open>
  Python's \<^verbatim>\<open>round\<close> on a fraction: to the nearest integer, a tie to the even neighbour.
\<close>

definition py_round :: "rat \<Rightarrow> int" where
  "py_round x =
     (let f = \<lfloor>x\<rfloor>; d = x - of_int f
      in if d < 1 / 2 then f
         else if 1 / 2 < d then f + 1
         else if even f then f else f + 1)"

text \<open>
  \<^verbatim>\<open>RandomState(seed).choice(N, size=n, replace=False)\<close>: the positions drawn depend on the
  seed alone. The generator is a parameter; \<open>without_replacement\<close> is its contract.
\<close>

type_synonym random_state = "nat \<Rightarrow> nat \<Rightarrow> nat \<Rightarrow> nat list"

definition without_replacement :: "(nat \<Rightarrow> nat \<Rightarrow> nat list) \<Rightarrow> bool" where
  "without_replacement choice =
     (\<forall>N n. n \<le> N \<longrightarrow>
        length (choice N n) = n \<and> distinct (choice N n) \<and> (\<forall>i \<in> set (choice N n). i < N))"

text \<open>
  \<^verbatim>\<open>dataframe.sample(frac=..., random_state=seed)\<close>: \<^verbatim>\<open>n = round(frac * len)\<close> positions are
  drawn without replacement and the rows at these positions are taken, in the order drawn.
  The positions come from \<^verbatim>\<open>choice(len, ...)\<close> and are below \<open>len\<close>. The fraction is a
  rational number and the product is exact (\<open>sample_df\<close> and \<open>drop_df\<close> carry a suffix,
  their names are taken in HOL or by the script).
\<close>

definition sample_df :: "rat \<Rightarrow> (nat \<Rightarrow> nat \<Rightarrow> nat list) \<Rightarrow> ('l, 'v) dataframe \<Rightarrow> ('l, 'v) dataframe" where
  "sample_df fraction choice df =
     (let axis_length = len df;
          n = nat (py_round (fraction * of_nat axis_length));
          locs = choice axis_length n
      in df\<lparr>rows := map (\<lambda>i. rows df ! i) locs\<rparr>)"

text \<open>
  \<^verbatim>\<open>dataframe.drop(labels)\<close>: every row whose index label is among \<open>labels\<close> is removed; a
  label that is not in the index raises \<^verbatim>\<open>KeyError\<close>.
\<close>

definition drop_df :: "'l list \<Rightarrow> ('l, 'v) dataframe \<Rightarrow> error + ('l, 'v) dataframe" where
  "drop_df labels df =
     (if set labels \<subseteq> set (index df)
      then Inr (df\<lparr>rows := filter (\<lambda>r. fst r \<notin> set labels) (rows df)\<rparr>)
      else Inl (KeyError ''not found in axis''))"

text \<open>
  Lines 83 and 84 of the script:
  \<^verbatim>\<open>val_dataframe = dataframe.sample(frac=0.15, random_state=1337)\<close>,
  \<^verbatim>\<open>train_dataframe = dataframe.drop(val_dataframe.index)\<close>.
\<close>

definition train_val_split ::
  "random_state \<Rightarrow> ('l, 'v) dataframe \<Rightarrow> error + (('l, 'v) dataframe \<times> ('l, 'v) dataframe)" where
  "train_val_split rs dataframe =
     (let val_dataframe = sample_df (15 / 100) (rs 1337) dataframe
      in case drop_df (index val_dataframe) dataframe of
           Inl e \<Rightarrow> Inl e
         | Inr train_dataframe \<Rightarrow> Inr (val_dataframe, train_dataframe))"

section \<open>Dataset wrapper\<close>

text \<open>
  Python passes a \<^verbatim>\<open>DataFrame\<close> by reference. The objects live in a store, a reference is a
  position of the store, and \<^verbatim>\<open>copy\<close> allocates at the end. The script only passes
  references of objects it has created.
\<close>

type_synonym ('l, 'v) store = "('l, 'v) dataframe list"

definition copy :: "('l, 'v) store \<Rightarrow> nat \<Rightarrow> ('l, 'v) store \<times> nat" where
  "copy s r = (s @ [s ! r], length s)"

text \<open>
  \<^verbatim>\<open>dataframe.pop(name)\<close> removes the column from the object in place and returns its
  values; a missing column raises \<^verbatim>\<open>KeyError\<close> (and so does, here, a row without a cell
  for a column of the table, which a \<^verbatim>\<open>DataFrame\<close> never has).
\<close>

definition pop :: "string \<Rightarrow> ('l, 'v) store \<Rightarrow> nat \<Rightarrow> error + ('v list \<times> ('l, 'v) store)" where
  "pop name s r =
     (let df = s ! r
      in if name \<in> set (columns df)
         then case those (map (\<lambda>row. snd row name) (rows df)) of
                None \<Rightarrow> Inl (KeyError name)
              | Some labels \<Rightarrow>
                  Inr (labels,
                       s[r := df\<lparr>columns := removeAll name (columns df),
                                 rows := map (\<lambda>row. (fst row, (snd row)(name := None))) (rows df)\<rparr>])
         else Inl (KeyError name))"

text \<open>
  A dataset as \<^verbatim>\<open>from_tensor_slices(...).shuffle(buffer_size)\<close> builds it: the slices in
  table order and the size of the shuffle buffer. \<^verbatim>\<open>from_tensor_slices((dict(df), labels))\<close>
  yields one pair per row: the cells of the row by column name, and the label of the row.
\<close>

record 'v dataset =
  elements :: "('v cells \<times> 'v) list"
  buffer_size :: nat

definition from_tensor_slices :: "('l, 'v) dataframe \<Rightarrow> 'v list \<Rightarrow> ('v cells \<times> 'v) list" where
  "from_tensor_slices df labels = zip (map snd (rows df)) labels"

text \<open>tf.data rejects a shuffle buffer of size zero when the dataset is created.\<close>

definition shuffle :: "nat \<Rightarrow> ('v cells \<times> 'v) list \<Rightarrow> error + 'v dataset" where
  "shuffle buffer ds =
     (if buffer = 0 then Inl (InvalidArgument ''buffer_size must be greater than zero'')
      else Inr \<lparr>elements = ds, buffer_size = buffer\<rparr>)"

text \<open>
  Lines 96 to 101. The result is paired with the store after the call, also when the call
  raises.
\<close>

definition dataframe_to_dataset :: "('l, 'v) store \<Rightarrow> nat \<Rightarrow> (error + 'v dataset) \<times> ('l, 'v) store" where
  "dataframe_to_dataset s dataframe =
     (let (s1, dataframe1) = copy s dataframe
      in case pop ''Bot_or_Not'' s1 dataframe1 of
           Inl e \<Rightarrow> (Inl e, s1)
         | Inr (labels, s2) \<Rightarrow>
             (shuffle (len (s2 ! dataframe1)) (from_tensor_slices (s2 ! dataframe1) labels), s2))"

text \<open>
  One pass over a shuffled dataset. The buffer is filled with the first \<open>buffer_size\<close>
  elements; each step yields the element at a random position of the buffer and puts the
  next element of the input in its place, or closes the gap once the input is used up.
  \<open>rnd\<close> is the stream of random numbers of this pass.
\<close>

function shuffle_go :: "(nat \<Rightarrow> nat) \<Rightarrow> 'a list \<Rightarrow> 'a list \<Rightarrow> 'a list" where
  "shuffle_go rnd buf rest =
     (if buf = [] then []
      else buf ! (rnd 0 mod length buf) #
           (case rest of
              [] \<Rightarrow> shuffle_go (\<lambda>k. rnd (Suc k))
                     (take (rnd 0 mod length buf) buf @ drop (Suc (rnd 0 mod length buf)) buf) []
            | x # xs \<Rightarrow> shuffle_go (\<lambda>k. rnd (Suc k)) (buf[rnd 0 mod length buf := x]) xs))"
  by pat_completeness auto
termination
proof (relation "measure (\<lambda>(rnd, buf, rest). length buf + length rest)")
  show "wf (measure (\<lambda>(rnd :: nat \<Rightarrow> nat, buf :: 'a list, rest :: 'a list). length buf + length rest))"
    by simp
next
  fix rnd :: "nat \<Rightarrow> nat" and buf rest :: "'a list"
  assume "buf \<noteq> []" and "rest = []"
  then have "rnd 0 mod length buf < length buf" by simp
  then have "rnd 0 mod length buf + (length buf - Suc (rnd 0 mod length buf)) < length buf"
    by arith
  with \<open>rest = []\<close>
  show "((\<lambda>k. rnd (Suc k), take (rnd 0 mod length buf) buf @ drop (Suc (rnd 0 mod length buf)) buf, []),
         rnd, buf, rest) \<in> measure (\<lambda>(rnd, buf, rest). length buf + length rest)"
    by simp
next
  fix rnd :: "nat \<Rightarrow> nat" and buf rest :: "'a list" and x xs
  assume "buf \<noteq> []" and "rest = x # xs"
  then show "((\<lambda>k. rnd (Suc k), buf[rnd 0 mod length buf := x], xs), rnd, buf, rest)
      \<in> measure (\<lambda>(rnd, buf, rest). length buf + length rest)"
    by simp
qed

definition iterate :: "(nat \<Rightarrow> nat) \<Rightarrow> 'v dataset \<Rightarrow> ('v cells \<times> 'v) list" where
  "iterate rnd ds =
     shuffle_go rnd (take (buffer_size ds) (elements ds)) (drop (buffer_size ds) (elements ds))"

text \<open>\<^verbatim>\<open>ds.batch(n)\<close>: consecutive groups of \<open>n\<close> elements, the last group with what is left.\<close>

function batch :: "nat \<Rightarrow> 'a list \<Rightarrow> 'a list list" where
  "batch n xs = (if n = 0 \<or> xs = [] then [] else take n xs # batch n (drop n xs))"
  by pat_completeness auto
termination
  by (relation "measure (\<lambda>(n, xs). length xs)") auto

text \<open>
  A batch of pairs is one pair of arrays: for each feature name the values of the batch,
  and the labels of the batch.
\<close>

type_synonym 'v batch = "(string \<rightharpoonup> 'v list) \<times> 'v list"

definition stack :: "('v cells \<times> 'v) list \<Rightarrow> 'v batch" where
  "stack b = ((\<lambda>name. those (map (\<lambda>e. fst e name) b)), map snd b)"

text \<open>Lines 120 and 121: one epoch of \<^verbatim>\<open>ds.batch(32)\<close>.\<close>

definition batches :: "(nat \<Rightarrow> nat) \<Rightarrow> 'v dataset \<Rightarrow> 'v batch list" where
  "batches rnd ds = map stack (batch 32 (iterate rnd ds))"

section \<open>Feature encoders\<close>

text \<open>A cell of the table or a component of a tensor: an \<^verbatim>\<open>int64\<close> or a float.\<close>

datatype val = IntV int | FloatV real

fun to_float :: "val \<Rightarrow> real" where
  "to_float (IntV i) = of_int i"
| "to_float (FloatV x) = x"

text \<open>A float becomes an integer by dropping its fraction, towards zero.\<close>

fun to_int :: "val \<Rightarrow> int" where
  "to_int (IntV i) = i"
| "to_int (FloatV x) = (if 0 \<le> x then \<lfloor>x\<rfloor> else \<lceil>x\<rceil>)"

text \<open>
  \<^verbatim>\<open>dataset.map(lambda x, y: x[name])\<close> over the batched dataset: the array of the feature in
  each batch; a name that is no feature raises \<^verbatim>\<open>KeyError\<close>. The second \<^verbatim>\<open>map\<close> of the
  script (\<^verbatim>\<open>tf.expand_dims(x, -1)\<close>) adds an axis of length one and leaves the values as
  they are.
\<close>

definition feature_ds :: "string \<Rightarrow> 'v batch list \<Rightarrow> error + 'v list list" where
  "feature_ds name dataset =
     (case those (map (\<lambda>b. fst b name) dataset) of
        None \<Rightarrow> Inl (KeyError name)
      | Some arrays \<Rightarrow> Inr arrays)"

text \<open>
  \<^verbatim>\<open>Normalization().adapt(feature_ds)\<close> learns the mean and the (population) variance of all
  values of the pass and stores them in the weights of the layer, which are 32-bit floats.
  Calling the layer casts its input to 32-bit floats and maps \<open>x\<close> to
  \<^verbatim>\<open>(x - mean) / maximum(sqrt(variance), epsilon)\<close> with the backend's \<^verbatim>\<open>epsilon = 1e-7\<close>, every
  operation on 32-bit floats.

  \<open>fl\<close> is the rounding of a real number to the floats of the layer, a parameter: the
  layer never holds a value outside the range of \<open>fl\<close>, and two inputs that \<open>fl\<close> sends to
  the same float get the same output. The statistics of the pass are taken of the values
  as the dataset holds them and are rounded when they are stored. A pass of the script is
  never empty: the wrapper rejects an empty partition.
\<close>

record normalization =
  mean :: real
  variance :: real

definition adapt_normalization :: "(real \<Rightarrow> real) \<Rightarrow> real list list \<Rightarrow> normalization" where
  "adapt_normalization fl arrays =
     (let xs = concat arrays; n = real (length xs); m = sum_list xs / n
      in \<lparr>mean = fl m, variance = fl (sum_list (map (\<lambda>x. (x - m)\<^sup>2) xs) / n)\<rparr>)"



text \<open>
  \<^verbatim>\<open>CategoryEncoding(output_mode="binary").adapt(feature_ds)\<close> is built without
  \<^verbatim>\<open>max_tokens\<close>: the pass keeps the largest code it sees and sets the number of elements
  of the output to that code plus one. Calling the layer on one code is a binary bincount
  of that length: a one at the position equal to the code. A code is its own position; a
  code outside \<open>0..<num_elements\<close> has no position. The largest code starts at \<open>-1\<close>,
  below every code a bincount takes.
\<close>

definition adapt_category :: "int list list \<Rightarrow> nat" where
  "adapt_category arrays = nat (fold max (concat arrays) (- 1) + 1)"

definition category_call :: "nat \<Rightarrow> int \<Rightarrow> real list" where
  "category_call num_elements c = map (\<lambda>i. if int i = c then 1 else 0) [0..<num_elements]"

datatype encoder = Normalization normalization | CategoryEncoding nat

text \<open>
  Lines 155 to 168 and 199 to 212. \<open>feature\<close> is the name of the \<^verbatim>\<open>keras.Input\<close> the adapted
  layer is applied to, \<open>name\<close> the column it is adapted from, \<open>rnd\<close> the random numbers of
  the pass over \<open>dataset\<close>. The result is the layer's state, attached to the input.
\<close>

definition encode_numerical_feature ::
  "(real \<Rightarrow> real) \<Rightarrow> (nat \<Rightarrow> nat) \<Rightarrow> string \<Rightarrow> string \<Rightarrow> val dataset \<Rightarrow> error + (string \<times> encoder)" where
  "encode_numerical_feature fl rnd feature name dataset =
     (case feature_ds name (batches rnd dataset) of
        Inl e \<Rightarrow> Inl e
      | Inr arrays \<Rightarrow> Inr (feature, Normalization (adapt_normalization fl (map (map to_float) arrays))))"

definition encode_integer_categorical_feature ::
  "(nat \<Rightarrow> nat) \<Rightarrow> string \<Rightarrow> string \<Rightarrow> val dataset \<Rightarrow> error + (string \<times> encoder)" where
  "encode_integer_categorical_feature rnd feature name dataset =
     (case feature_ds name (batches rnd dataset) of
        Inl e \<Rightarrow> Inl e
      | Inr arrays \<Rightarrow> Inr (feature, CategoryEncoding (adapt_category (map (map to_int) arrays))))"

section \<open>Model\<close>

text \<open>The first exception ends the script.\<close>

fun collect :: "(error + 'a) list \<Rightarrow> error + 'a list" where
  "collect [] = Inr []"
| "collect (x # xs) =
     (case x of
        Inl e \<Rightarrow> Inl e
      | Inr a \<Rightarrow> (case collect xs of Inl e \<Rightarrow> Inl e | Inr as \<Rightarrow> Inr (a # as)))"

text \<open>
  Lines 221 to 245: the inputs of the model, each a \<^verbatim>\<open>keras.Input\<close> with its name and its
  dtype (\<^verbatim>\<open>float32\<close> unless the script says \<^verbatim>\<open>int64\<close>), in the order of \<^verbatim>\<open>all_inputs\<close>.
\<close>

datatype dtype = Int64 | Float32

definition all_inputs :: "(string \<times> dtype) list" where
  "all_inputs =
     [(''followers'', Float32), (''following'', Float32), (''creation_date'', Float32),
      (''number_of_tweets'', Float32), (''Retweet_Ratio'', Float32),
      (''Profile_picture'', Int64), (''Tweets_Per_Day'', Float32), (''Bot_Score'', Int64)]"

text \<open>
  Lines 248 to 261, in the order of the calls. Each call makes a pass of its own over
  \<open>train_ds\<close>, with random numbers of its own.
\<close>

definition encoded_features ::
  "(real \<Rightarrow> real) \<Rightarrow> (nat \<Rightarrow> nat \<Rightarrow> nat) \<Rightarrow> val dataset \<Rightarrow> error + (string \<times> encoder) list" where
  "encoded_features fl rnds train_ds =
     collect
       [encode_integer_categorical_feature (rnds 0) ''Profile_picture'' ''Profile_picture'' train_ds,
        encode_integer_categorical_feature (rnds 1) ''Tweets_Per_Day'' ''Bot_Score'' train_ds,
        encode_numerical_feature fl (rnds 2) ''followers'' ''followers'' train_ds,
        encode_numerical_feature fl (rnds 3) ''following'' ''following'' train_ds,
        encode_numerical_feature fl (rnds 4) ''creation_date'' ''creation_date'' train_ds,
        encode_numerical_feature fl (rnds 5) ''number_of_tweets'' ''number_of_tweets'' train_ds,
        encode_numerical_feature fl (rnds 6) ''Retweet_Ratio'' ''Retweet_Ratio'' train_ds,
        encode_numerical_feature fl (rnds 7) ''Bot_Score'' ''Tweets_Per_Day'' train_ds]"

text \<open>
  The model: its inputs, the adapted layers (they have no trainable weights) and the
  trainable weights of the two dense layers, of a type \<open>'w\<close> left open.
\<close>

record 'w model =
  inputs :: "(string \<times> dtype) list"
  encoders :: "(string \<times> encoder) list"
  weights :: 'w

definition build_model :: "(string \<times> encoder) list \<Rightarrow> 'w \<Rightarrow> 'w model" where
  "build_model encoded w0 = \<lparr>inputs = all_inputs, encoders = encoded, weights = w0\<rparr>"

text \<open>
  Line 292, \<^verbatim>\<open>model.fit(train_ds, epochs=50, validation_data=val_ds)\<close>: each epoch makes one
  pass over the training batches and updates the trainable weights; \<open>step\<close> is the
  optimiser's update over one epoch. The validation data is only measured against.
\<close>

definition fit ::
  "('w \<Rightarrow> val batch list \<Rightarrow> 'w) \<Rightarrow> (nat \<Rightarrow> nat \<Rightarrow> nat) \<Rightarrow> val dataset \<Rightarrow> nat \<Rightarrow> 'w model \<Rightarrow> 'w model" where
  "fit step rnds train_ds epochs m =
     m\<lparr>weights := fold (\<lambda>k w. step w (batches (rnds (8 + k)) train_ds)) [0..<epochs] (weights m)\<rparr>"

text \<open>Lines 104 to 121: both datasets, from a store that holds the two partitions.\<close>

definition datasets ::
  "('l, 'v) dataframe \<Rightarrow> ('l, 'v) dataframe \<Rightarrow> error + ('v dataset \<times> 'v dataset)" where
  "datasets train_dataframe val_dataframe =
     (case dataframe_to_dataset [train_dataframe, val_dataframe] 0 of
        (Inl e, s1) \<Rightarrow> Inl e
      | (Inr train_ds, s1) \<Rightarrow>
          (case dataframe_to_dataset s1 1 of
             (Inl e, s2) \<Rightarrow> Inl e
           | (Inr val_ds, s2) \<Rightarrow> Inr (train_ds, val_ds)))"

text \<open>The script from the split to the fitted model.\<close>

definition run ::
  "(real \<Rightarrow> real) \<Rightarrow> random_state \<Rightarrow> (nat \<Rightarrow> nat \<Rightarrow> nat) \<Rightarrow> ('w \<Rightarrow> val batch list \<Rightarrow> 'w) \<Rightarrow> 'w \<Rightarrow> ('l, val) dataframe \<Rightarrow>
   error + 'w model" where
  "run fl rs rnds step w0 dataframe =
     (case train_val_split rs dataframe of
        Inl e \<Rightarrow> Inl e
      | Inr (val_dataframe, train_dataframe) \<Rightarrow>
          (case datasets train_dataframe val_dataframe of
             Inl e \<Rightarrow> Inl e
           | Inr (train_ds, val_ds) \<Rightarrow>
               (case encoded_features fl rnds train_ds of
                  Inl e \<Rightarrow> Inl e
                | Inr encoded \<Rightarrow> Inr (fit step rnds train_ds 50 (build_model encoded w0)))))"

section \<open>Inference\<close>

text \<open>
  \<^verbatim>\<open>model.predict(input_dict)\<close> looks every input of the model up in the dictionary, in the
  order of the inputs; a name without data is an error. The tensors found are conformed to
  their inputs: each is cast to the dtype of its input, whatever numeric dtype it has.
  \<open>net\<close> is the forward pass of the graph (the adapted layers, the concatenation, the two
  dense layers) on the conformed tensors; its value is returned as it is.
\<close>

fun flatten_to_reference_inputs :: "string list \<Rightarrow> (string \<rightharpoonup> 'a) \<Rightarrow> error + 'a list" where
  "flatten_to_reference_inputs [] tensors = Inr []"
| "flatten_to_reference_inputs (n # ns) tensors =
     (case tensors n of
        None \<Rightarrow> Inl (MissingData n)
      | Some t \<Rightarrow>
          (case flatten_to_reference_inputs ns tensors of
             Inl e \<Rightarrow> Inl e
           | Inr ts \<Rightarrow> Inr (t # ts)))"

fun cast :: "dtype \<Rightarrow> val \<Rightarrow> val" where
  "cast Float32 v = FloatV (to_float v)"
| "cast Int64 v = IntV (to_int v)"

definition conform_to_reference_inputs :: "(string \<times> dtype) list \<Rightarrow> val list list \<Rightarrow> val list list" where
  "conform_to_reference_inputs ref_inputs ts = map2 (\<lambda>ref t. map (cast (snd ref)) t) ref_inputs ts"

definition predict ::
  "('w \<Rightarrow> (string \<times> encoder) list \<Rightarrow> val list list \<Rightarrow> real) \<Rightarrow> 'w model \<Rightarrow> (string \<rightharpoonup> val list) \<Rightarrow>
   error + real" where
  "predict net m tensors =
     (case flatten_to_reference_inputs (map fst (inputs m)) tensors of
        Inl e \<Rightarrow> Inl e
      | Inr ts \<Rightarrow> Inr (net (weights m) (encoders m) (conform_to_reference_inputs (inputs m) ts)))"

text \<open>Lines 307 to 317: the example and the dictionary of tensors made from it.\<close>

definition sample :: "(string \<times> val) list" where
  "sample =
     [(''followers'', IntV 100), (''following'', IntV 50), (''creation_date'', IntV 2010),
      (''number_of_tweets'', IntV 800), (''Retweet_Ratio'', FloatV (3 / 10)),
      (''Profile_picture'', IntV 1), (''Bot_Score'', IntV 5)]"

definition input_dict :: "string \<rightharpoonup> val list" where
  "input_dict = map_of (map (\<lambda>(name, value). (name, [value])) sample)"

section \<open>Statistics of a column\<close>





section \<open>Concrete inputs\<close>

text \<open>A generator that draws the first positions, and two tables of four rows.\<close>

definition first_positions :: random_state where
  "first_positions seed N n = take n [0..<N]"

definition table_distinct :: "(nat, nat) dataframe" where
  "table_distinct =
     \<lparr>columns = [''followers'', ''Bot_or_Not''],
      rows = [(0, [''followers'' \<mapsto> 100, ''Bot_or_Not'' \<mapsto> 1]),
              (1, [''followers'' \<mapsto> 10, ''Bot_or_Not'' \<mapsto> 0]),
              (2, [''followers'' \<mapsto> 250, ''Bot_or_Not'' \<mapsto> 1]),
              (3, [''followers'' \<mapsto> 40, ''Bot_or_Not'' \<mapsto> 0])]\<rparr>"

definition table_duplicated :: "(nat, nat) dataframe" where
  "table_duplicated =
     \<lparr>columns = [''Bot_or_Not''],
      rows = [(7, Map.empty), (7, Map.empty), (7, Map.empty), (7, Map.empty)]\<rparr>"

definition table_of_33 :: "(nat, nat) dataframe" where
  "table_of_33 =
     \<lparr>columns = [''followers'', ''Bot_or_Not''],
      rows = map (\<lambda>i. (i, [''followers'' \<mapsto> 10 * i, ''Bot_or_Not'' \<mapsto> i mod 2])) [0..<33]\<rparr>"

definition empty_table :: "(nat, nat) dataframe" where
  "empty_table = \<lparr>columns = [''followers'', ''Bot_or_Not''], rows = []\<rparr>"

text \<open>Two tables of four accounts that differ in their first row only, and the last three rows.\<close>

definition account ::
  "int \<Rightarrow> int \<Rightarrow> int \<Rightarrow> int \<Rightarrow> real \<Rightarrow> int \<Rightarrow> real \<Rightarrow> int \<Rightarrow> int \<Rightarrow> val cells" where
  "account followers following creation_date number_of_tweets retweet_ratio profile_picture
     tweets_per_day bot_score bot_or_not =
     map_of
       [(''followers'', IntV followers), (''following'', IntV following),
        (''creation_date'', IntV creation_date), (''number_of_tweets'', IntV number_of_tweets),
        (''Retweet_Ratio'', FloatV retweet_ratio), (''Profile_picture'', IntV profile_picture),
        (''Tweets_Per_Day'', FloatV tweets_per_day), (''Bot_Score'', IntV bot_score),
        (''Bot_or_Not'', IntV bot_or_not)]"

definition account_columns :: "string list" where
  "account_columns =
     [''followers'', ''following'', ''creation_date'', ''number_of_tweets'', ''Retweet_Ratio'',
      ''Profile_picture'', ''Tweets_Per_Day'', ''Bot_Score'', ''Bot_or_Not'']"

definition accounts :: "(nat, val) dataframe" where
  "accounts =
     \<lparr>columns = account_columns,
      rows = [(0, account 100 50 2010 800 (3 / 10) 1 (1 / 2) 5 1),
              (1, account 10 500 2019 9000 (9 / 10) 0 3 5 1),
              (2, account 250 200 2012 300 (1 / 10) 1 (3 / 2) 2 0),
              (3, account 40 60 2015 120 (1 / 5) 1 0 0 0)]\<rparr>"

definition accounts_other :: "(nat, val) dataframe" where
  "accounts_other =
     \<lparr>columns = account_columns,
      rows = [(0, account 7 7000 2020 50000 1 0 40 4 1),
              (1, account 10 500 2019 9000 (9 / 10) 0 3 5 1),
              (2, account 250 200 2012 300 (1 / 10) 1 (3 / 2) 2 0),
              (3, account 40 60 2015 120 (1 / 5) 1 0 0 0)]\<rparr>"

definition accounts_train :: "(nat, val) dataframe" where
  "accounts_train =
     \<lparr>columns = account_columns,
      rows = [(1, account 10 500 2019 9000 (9 / 10) 0 3 5 1),
              (2, account 250 200 2012 300 (1 / 10) 1 (3 / 2) 2 0),
              (3, account 40 60 2015 120 (1 / 5) 1 0 0 0)]\<rparr>"

text \<open>
  A table of four accounts whose last three rows have the same number of followers, whose
  \<^verbatim>\<open>following\<close> values there lie next to each other above \<open>2 ^ 24\<close>, and whose second row has
  more tweets per day than any \<^verbatim>\<open>Bot_Score\<close>; and its last three rows.
\<close>

definition accounts_flat :: "(nat, val) dataframe" where
  "accounts_flat =
     \<lparr>columns = account_columns,
      rows = [(0, account 100 50 2010 800 (3 / 10) 1 (1 / 2) 5 1),
              (1, account 7 16777216 2019 9000 (9 / 10) 0 40 5 1),
              (2, account 7 16777217 2012 300 (1 / 10) 1 (3 / 2) 2 0),
              (3, account 7 16777216 2015 120 (1 / 5) 1 0 0 0)]\<rparr>"

definition accounts_flat_train :: "(nat, val) dataframe" where
  "accounts_flat_train =
     \<lparr>columns = account_columns,
      rows = [(1, account 7 16777216 2019 9000 (9 / 10) 0 40 5 1),
              (2, account 7 16777217 2012 300 (1 / 10) 1 (3 / 2) 2 0),
              (3, account 7 16777216 2015 120 (1 / 5) 1 0 0 0)]\<rparr>"


text \<open>
  A file whose four records have two fields each under a header of one name, and the
  table \<^verbatim>\<open>read_csv\<close> makes of it.
\<close>

definition labelled_records :: "nat list list" where
  "labelled_records = [[7, 1], [7, 0], [7, 1], [7, 0]]"

definition labelled_table :: "(nat + nat list, nat) dataframe" where
  "labelled_table =
     \<lparr>columns = [''Bot_or_Not''],
      rows = [(Inr [7], map_of [(''Bot_or_Not'', 1)]), (Inr [7], map_of [(''Bot_or_Not'', 0)]),
              (Inr [7], map_of [(''Bot_or_Not'', 1)]), (Inr [7], map_of [(''Bot_or_Not'', 0)])]\<rparr>"

text \<open>The example of the script, completed by an integer for the input it lacks.\<close>

definition complete_dict :: "string \<rightharpoonup> val list" where
  "complete_dict = input_dict(''Tweets_Per_Day'' \<mapsto> [IntV 2])"
section \<open>Properties of the split\<close>

lemma py_round_near: "\<bar>of_int (py_round x) - x\<bar> \<le> 1 / 2"
proof -
  have lo: "of_int \<lfloor>x\<rfloor> \<le> x" and hi: "x < of_int \<lfloor>x\<rfloor> + 1"
    by linarith+
  show ?thesis
    unfolding py_round_def Let_def using lo hi by (simp add: abs_le_iff)
qed

lemma sample_size_bounds:
  fixes N :: nat
  defines "r \<equiv> py_round (15 / 100 * of_nat N)"
  shows "0 \<le> r" and "r \<le> int N" and "\<bar>20 * r - 3 * int N\<bar> \<le> 10"
proof -
  define x where "x = 15 / 100 * rat_of_nat N"
  have near: "\<bar>rat_of_int r - x\<bar> \<le> 1 / 2"
    unfolding r_def x_def by (rule py_round_near)
  have N0: "0 \<le> rat_of_nat N" by simp
  have x20: "20 * x = 3 * rat_of_nat N" by (simp add: x_def)
  from near have up: "rat_of_int r \<le> x + 1 / 2" and dn: "x \<le> rat_of_int r + 1 / 2"
    by linarith+
  have "rat_of_int (- 1) < rat_of_int r"
    using dn N0 x20 by simp
  then have "- 1 < r" by (simp only: of_int_less_iff)
  then show "0 \<le> r" by simp
  show "r \<le> int N"
  proof (cases "N = 0")
    case True
    then show ?thesis by (simp add: r_def py_round_def)
  next
    case False
    then have "1 \<le> rat_of_nat N" by simp
    then have "rat_of_int r < rat_of_int (int N + 1)"
      using up x20 by simp
    then have "r < int N + 1" by (simp only: of_int_less_iff)
    then show ?thesis by simp
  qed
  have "\<bar>rat_of_int (20 * r - 3 * int N)\<bar> \<le> rat_of_int 10"
    using up dn x20 by simp
  then show "\<bar>20 * r - 3 * int N\<bar> \<le> 10"
    by (simp only: of_int_abs [symmetric] of_int_le_iff)
qed

lemma sample_size_le: "nat (py_round (15 / 100 * of_nat N)) \<le> N"
  using sample_size_bounds(1,2) [of N] by simp

lemma sample_size_near:
  "\<bar>20 * int (nat (py_round (15 / 100 * of_nat N))) - 3 * int N\<bar> \<le> 10"
  using sample_size_bounds(1,3) [of N] by simp

text \<open>The split, with the positions the generator drew made explicit.\<close>

lemma train_val_split_locs:
  assumes "without_replacement (rs 1337)"
  shows "\<exists>locs. length locs = nat (py_round (15 / 100 * of_nat (len df)))
           \<and> distinct locs \<and> (\<forall>i \<in> set locs. i < len df)
           \<and> train_val_split rs df =
               Inr (df\<lparr>rows := map (\<lambda>i. rows df ! i) locs\<rparr>,
                    df\<lparr>rows := filter (\<lambda>r. fst r \<notin> set (map (\<lambda>i. fst (rows df ! i)) locs))
                                   (rows df)\<rparr>)"
proof -
  let ?n = "nat (py_round (15 / 100 * of_nat (len df)))"
  let ?locs = "rs 1337 (len df) ?n"
  have ok: "length ?locs = ?n \<and> distinct ?locs \<and> (\<forall>i \<in> set ?locs. i < len df)"
    using assms sample_size_le [of "len df"] unfolding without_replacement_def by blast
  have val: "sample_df (15 / 100) (rs 1337) df = df\<lparr>rows := map (\<lambda>i. rows df ! i) ?locs\<rparr>"
    by (simp add: sample_df_def Let_def)
  have idx: "index (df\<lparr>rows := map (\<lambda>i. rows df ! i) ?locs\<rparr>) = map (\<lambda>i. fst (rows df ! i)) ?locs"
    by (simp add: index_def)
  have sub: "set (map (\<lambda>i. fst (rows df ! i)) ?locs) \<subseteq> set (index df)"
    using ok by (auto simp: index_def len_def)
  have "train_val_split rs df =
      Inr (df\<lparr>rows := map (\<lambda>i. rows df ! i) ?locs\<rparr>,
           df\<lparr>rows := filter (\<lambda>r. fst r \<notin> set (map (\<lambda>i. fst (rows df ! i)) ?locs)) (rows df)\<rparr>)"
    unfolding train_val_split_def val Let_def idx drop_df_def using sub by simp
  with ok show ?thesis by blast
qed

lemma take_drop_complement:
  assumes dist: "distinct (map fst xs)"
    and locs: "distinct locs" "\<forall>i \<in> set locs. i < length xs"
  defines "vs \<equiv> map (\<lambda>i. xs ! i) locs"
  defines "ts \<equiv> filter (\<lambda>r. fst r \<notin> set (map (\<lambda>i. fst (xs ! i)) locs)) xs"
  shows "set ts = set xs - set vs" and "length vs + length ts = length xs"
proof -
  have dxs: "distinct xs" using dist by (rule distinct_map [THEN iffD1, THEN conjunct1])
  have sub: "set vs \<subseteq> set xs" using locs by (auto simp: vs_def)
  have dvs: "distinct vs"
    unfolding vs_def using dxs locs by (simp add: distinct_map inj_on_nth)
  have key: "fst r \<in> set (map (\<lambda>i. fst (xs ! i)) locs) \<longleftrightarrow> r \<in> set vs" if "r \<in> set xs" for r
  proof
    assume "fst r \<in> set (map (\<lambda>i. fst (xs ! i)) locs)"
    then obtain i where i: "i \<in> set locs" "fst (xs ! i) = fst r" by auto
    then have "xs ! i \<in> set xs" using locs by simp
    with dist that i have "xs ! i = r"
      by (metis eq_key_imp_eq_value prod.collapse)
    with i show "r \<in> set vs" by (auto simp: vs_def)
  next
    assume "r \<in> set vs"
    then show "fst r \<in> set (map (\<lambda>i. fst (xs ! i)) locs)" by (auto simp: vs_def)
  qed
  then have ts: "ts = filter (\<lambda>r. r \<notin> set vs) xs"
    unfolding ts_def by (intro filter_cong) auto
  then show set_ts: "set ts = set xs - set vs" by auto
  have "distinct ts" using dxs by (simp add: ts)
  then have "length ts = card (set xs - set vs)"
    using set_ts distinct_card by metis
  also have "\<dots> = card (set xs) - card (set vs)"
    using sub by (simp add: card_Diff_subset)
  also have "\<dots> = length xs - length vs"
    using dxs dvs by (simp add: distinct_card)
  finally have "length ts = length xs - length vs" .
  moreover have "length vs \<le> length xs"
    using sub dxs dvs by (metis card_mono distinct_card finite_set)
  ultimately show "length vs + length ts = length xs" by simp
qed

lemma train_val_split_props:
  assumes "without_replacement (rs 1337)"
  shows "\<exists>val train. train_val_split rs df = Inr (val, train)
           \<and> len val = nat (py_round (15 / 100 * of_nat (len df)))
           \<and> rows train = filter (\<lambda>r. fst r \<notin> set (index val)) (rows df)
           \<and> set (rows val) \<subseteq> set (rows df)
           \<and> (distinct (index df) \<longrightarrow>
                 set (rows train) = set (rows df) - set (rows val)
                 \<and> len val + len train = len df)"
proof -
  from train_val_split_locs [of rs df, OF assms] obtain locs where
    n: "length locs = nat (py_round (15 / 100 * of_nat (len df)))"
    and d: "distinct locs" and lt: "\<forall>i \<in> set locs. i < length (rows df)"
    and split: "train_val_split rs df =
      Inr (df\<lparr>rows := map (\<lambda>i. rows df ! i) locs\<rparr>,
           df\<lparr>rows := filter (\<lambda>r. fst r \<notin> set (map (\<lambda>i. fst (rows df ! i)) locs)) (rows df)\<rparr>)"
    unfolding len_def by blast
  let ?val = "df\<lparr>rows := map (\<lambda>i. rows df ! i) locs\<rparr>"
  let ?train = "df\<lparr>rows := filter (\<lambda>r. fst r \<notin> set (map (\<lambda>i. fst (rows df ! i)) locs)) (rows df)\<rparr>"
  have idx: "index ?val = map (\<lambda>i. fst (rows df ! i)) locs"
    by (simp add: index_def)
  have 1: "len ?val = nat (py_round (15 / 100 * of_nat (len df)))"
    using n by (simp add: len_def)
  have 2: "rows ?train = filter (\<lambda>r. fst r \<notin> set (index ?val)) (rows df)"
    unfolding idx by simp
  have 3: "set (rows ?val) \<subseteq> set (rows df)"
    using lt by auto
  have 4: "set (rows ?train) = set (rows df) - set (rows ?val) \<and> len ?val + len ?train = len df"
    if "distinct (index df)"
    using take_drop_complement [OF that [unfolded index_def] d lt] by (simp add: len_def)
  from split 1 2 3 4 show ?thesis by blast
qed

lemma take_drop_le:
  assumes locs: "distinct locs" "\<forall>i \<in> set locs. i < length xs"
  shows "length (map (\<lambda>i. xs ! i) locs)
       + length (filter (\<lambda>r. fst r \<notin> set (map (\<lambda>i. fst (xs ! i)) locs)) xs) \<le> length xs"
proof -
  let ?A = "{i. i < length xs \<and> fst (xs ! i) \<notin> set (map (\<lambda>i. fst (xs ! i)) locs)}"
  have disj: "?A \<inter> set locs = {}" by auto
  have sub: "?A \<union> set locs \<subseteq> {..<length xs}" using locs by auto
  have "card ?A + card (set locs) = card (?A \<union> set locs)"
    using disj by (simp add: card_Un_disjoint)
  also have "\<dots> \<le> card {..<length xs}"
    using sub by (intro card_mono) auto
  finally have "card ?A + card (set locs) \<le> length xs" by simp
  moreover have "card (set locs) = length locs"
    using locs(1) by (rule distinct_card)
  moreover have "length (filter (\<lambda>r. fst r \<notin> set (map (\<lambda>i. fst (xs ! i)) locs)) xs) = card ?A"
    by (rule length_filter_conv_card)
  ultimately show ?thesis by simp
qed

lemma train_val_split_le:
  assumes "without_replacement (rs 1337)" and "train_val_split rs df = Inr (val, train)"
  shows "len val + len train \<le> len df"
proof -
  from train_val_split_locs [of rs df, OF assms(1)] obtain locs where
    d: "distinct locs" and lt: "\<forall>i \<in> set locs. i < length (rows df)"
    and split: "train_val_split rs df =
      Inr (df\<lparr>rows := map (\<lambda>i. rows df ! i) locs\<rparr>,
           df\<lparr>rows := filter (\<lambda>r. fst r \<notin> set (map (\<lambda>i. fst (rows df ! i)) locs)) (rows df)\<rparr>)"
    unfolding len_def by blast
  from split assms(2) have "val = df\<lparr>rows := map (\<lambda>i. rows df ! i) locs\<rparr>"
    "train = df\<lparr>rows := filter (\<lambda>r. fst r \<notin> set (map (\<lambda>i. fst (rows df ! i)) locs)) (rows df)\<rparr>"
    by simp_all
  then show ?thesis
    using take_drop_le [OF d lt] by (simp add: len_def)
qed

lemma len_read_csv:
  assumes "read_csv na header records = Inr df"
  shows "len df = length records"
  using assms by (auto simp: read_csv_def Let_def len_def split: if_splits)

lemma map_fst_zip_upt:
  "map (\<lambda>p. g (fst p)) (zip [0..<length ys] ys) = map g [0..<length ys]"
proof -
  have "map (\<lambda>p. g (fst p)) (zip xs ys) = map g xs" if "length xs = length ys" for xs :: "nat list"
    using that by (induction xs ys rule: list_induct2) simp_all
  then show ?thesis by simp
qed

lemma index_read_csv:
  assumes "read_csv na header records = Inr df" and "leading_cols header records = 0"
  shows "index df = map Inl [0..<length records]"
  using assms map_fst_zip_upt [of Inl records]
  by (auto simp: read_csv_def Let_def index_def case_prod_unfold comp_def split: if_splits)

lemma distinct_index_read_csv:
  assumes "read_csv na header records = Inr df" and "leading_cols header records = 0"
  shows "distinct (index df)"
  unfolding index_read_csv [OF assms] by (simp add: distinct_map)

lemma train_val_split_seed:
  "rs' 1337 = rs 1337 \<Longrightarrow> train_val_split rs' df = train_val_split rs df"
  by (simp add: train_val_split_def)

lemma without_replacement_take: "without_replacement (\<lambda>N n. take n [0..<N])"
  by (auto simp: without_replacement_def dest: in_set_takeD)

lemma floor_three_fifths: "\<lfloor>3 / 5 :: rat\<rfloor> = 0"
  by (simp add: floor_eq_iff)

section \<open>Claims about the split\<close>

text \<open>
  C10. Whatever the index of the table is, the training partition consists of the rows
  whose index label is not the label of a sampled row, so with duplicated labels every row
  that shares a label with a sampled row is removed. When the index labels are pairwise
  distinct, the training partition is exactly the complement of the sampled validation
  rows in the table, and the two sizes add up to the number of rows.
\<close>

theorem train_is_complement_of_sample:
  assumes "without_replacement (rs 1337)"
  shows "\<exists>val train. train_val_split rs df = Inr (val, train)
           \<and> rows train = filter (\<lambda>r. fst r \<notin> set (index val)) (rows df)
           \<and> set (rows val) \<subseteq> set (rows df)
           \<and> (distinct (index df) \<longrightarrow>
                 set (rows train) = set (rows df) - set (rows val)
                 \<and> len val + len train = len df)"
  using train_val_split_props [of rs df, OF assms] by blast

text \<open>
  The theorem at two tables of four rows, with the generator that draws the first
  positions: with the index \<open>0, 1, 2, 3\<close> the partitions are complementary; with the label
  \<open>7\<close> on every row the one sampled label removes all four rows and the sizes add up to
  one.
\<close>

theorem train_is_complement_of_sample_witness:
  "(\<exists>val train. train_val_split first_positions table_distinct = Inr (val, train)
      \<and> set (rows train) = set (rows table_distinct) - set (rows val)
      \<and> len val + len train = len table_distinct)
   \<and> (\<exists>val train. train_val_split first_positions table_duplicated = Inr (val, train)
      \<and> rows train = filter (\<lambda>r. fst r \<notin> set (index val)) (rows table_duplicated)
      \<and> rows train = [] \<and> len val + len train = 1 \<and> len table_duplicated = 4)"
proof -
  have wr: "without_replacement (first_positions 1337)"
    unfolding first_positions_def by (rule without_replacement_take)
  have dist: "distinct (index table_distinct)"
    by (simp add: index_def table_distinct_def)
  have A: "\<exists>val train. train_val_split first_positions table_distinct = Inr (val, train)
      \<and> set (rows train) = set (rows table_distinct) - set (rows val)
      \<and> len val + len train = len table_distinct"
    using train_is_complement_of_sample [of first_positions table_distinct, OF wr] dist by blast
  obtain val train where vt: "train_val_split first_positions table_duplicated = Inr (val, train)"
    and tr: "rows train = filter (\<lambda>r. fst r \<notin> set (index val)) (rows table_duplicated)"
    using train_is_complement_of_sample [of first_positions table_duplicated, OF wr] by blast
  have "train_val_split first_positions table_duplicated =
      Inr (table_duplicated\<lparr>rows := [(7, Map.empty)]\<rparr>, table_duplicated\<lparr>rows := []\<rparr>)"
    by (simp add: train_val_split_def sample_df_def drop_df_def len_def index_def py_round_def
        Let_def floor_three_fifths first_positions_def table_duplicated_def)
  with vt have "val = table_duplicated\<lparr>rows := [(7, Map.empty)]\<rparr>" "train = table_duplicated\<lparr>rows := []\<rparr>"
    by simp_all
  then have "rows train = [] \<and> len val + len train = 1 \<and> len table_duplicated = 4"
    by (simp add: len_def table_duplicated_def)
  with vt tr A show ?thesis by blast
qed

text \<open>
  C3. For every table, whatever its index, the split succeeds; it is determined by the
  table and by what the generator yields for the seed 1337 (a run whose generator agrees on
  that seed returns the same two partitions); the partitions share no row and no index
  label; and the validation partition holds 15 percent of the rows, rounded to a whole
  number of rows: \<open>20 n\<close> differs from \<open>3 N\<close> by at most 10. The two sizes never exceed the
  number of rows, and they add up to it when the index labels are pairwise distinct.
  A table that \<^verbatim>\<open>read_csv\<close> loads has one row for each record, and its labels are
  \<open>0, 1, ..., N-1\<close>, pairwise distinct, unless the first record has more fields than the
  header.
\<close>

theorem split_deterministic_disjoint:
  assumes "without_replacement (rs 1337)"
  shows "(\<exists>val train. train_val_split rs dataframe = Inr (val, train)
           \<and> (\<forall>rs'. rs' 1337 = rs 1337 \<longrightarrow>
                 train_val_split rs' dataframe = Inr (val, train))
           \<and> set (rows val) \<inter> set (rows train) = {}
           \<and> set (index val) \<inter> set (index train) = {}
           \<and> len val = nat (py_round (15 / 100 * of_nat (len dataframe)))
           \<and> \<bar>20 * int (len val) - 3 * int (len dataframe)\<bar> \<le> 10
           \<and> len val + len train \<le> len dataframe
           \<and> (distinct (index dataframe) \<longrightarrow> len val + len train = len dataframe))
       \<and> (\<forall>df. read_csv na header records = Inr df \<longrightarrow>
             len df = length records
             \<and> (leading_cols header records = 0 \<longrightarrow>
                   index df = map Inl [0..<length records] \<and> distinct (index df)))"
proof (intro conjI allI impI)
  from train_val_split_props [of rs dataframe, OF assms] obtain val train where
    split: "train_val_split rs dataframe = Inr (val, train)"
    and n: "len val = nat (py_round (15 / 100 * of_nat (len dataframe)))"
    and tr: "rows train = filter (\<lambda>r. fst r \<notin> set (index val)) (rows dataframe)"
    and sub: "set (rows val) \<subseteq> set (rows dataframe)"
    and compl: "distinct (index dataframe) \<longrightarrow> len val + len train = len dataframe"
    by blast
  from assms split have le: "len val + len train \<le> len dataframe"
    by (rule train_val_split_le)
  have same: "\<forall>rs'. rs' 1337 = rs 1337 \<longrightarrow> train_val_split rs' dataframe = Inr (val, train)"
  proof (intro allI impI)
    fix rs' :: random_state
    assume "rs' 1337 = rs 1337"
    then have "train_val_split rs' dataframe = train_val_split rs dataframe"
      by (rule train_val_split_seed)
    with split show "train_val_split rs' dataframe = Inr (val, train)" by simp
  qed
  have idx_disj: "set (index val) \<inter> set (index train) = {}"
    using tr by (force simp: index_def)
  have rows_disj: "set (rows val) \<inter> set (rows train) = {}"
    using tr by (force simp: index_def)
  have near: "\<bar>20 * int (len val) - 3 * int (len dataframe)\<bar> \<le> 10"
    unfolding n by (rule sample_size_near)
  from split same rows_disj idx_disj n near le compl
  show "\<exists>val train. train_val_split rs dataframe = Inr (val, train)
           \<and> (\<forall>rs'. rs' 1337 = rs 1337 \<longrightarrow>
                 train_val_split rs' dataframe = Inr (val, train))
           \<and> set (rows val) \<inter> set (rows train) = {}
           \<and> set (index val) \<inter> set (index train) = {}
           \<and> len val = nat (py_round (15 / 100 * of_nat (len dataframe)))
           \<and> \<bar>20 * int (len val) - 3 * int (len dataframe)\<bar> \<le> 10
           \<and> len val + len train \<le> len dataframe
           \<and> (distinct (index dataframe) \<longrightarrow> len val + len train = len dataframe)"
    by blast
next
  fix df :: "(nat + 'c list, 'c) dataframe"
  assume r: "read_csv na header records = Inr df"
  then show "len df = length records" by (rule len_read_csv)
  assume k: "leading_cols header records = 0"
  from r k show "index df = map Inl [0..<length records]" by (rule index_read_csv)
  from r k show "distinct (index df)" by (rule distinct_index_read_csv)
qed

text \<open>
  The theorem at a file of four records with one field each under a header of one name,
  with the generator that draws the first positions and with one that differs from it on
  every other seed: the table has the labels \<open>0, 1, 2, 3\<close>, one row is sampled and three
  remain.
\<close>

theorem split_deterministic_disjoint_witness:
  "\<exists>df val train. read_csv 0 [''Bot_or_Not''] [[1], [0], [1], [0::nat]] = Inr df
      \<and> index df = [Inl 0, Inl 1, Inl 2, Inl 3]
      \<and> train_val_split first_positions df = Inr (val, train)
      \<and> train_val_split (first_positions(0 := \<lambda>N n. [])) df = Inr (val, train)
      \<and> set (rows val) \<inter> set (rows train) = {}
      \<and> set (index val) \<inter> set (index train) = {}
      \<and> len val = 1 \<and> len train = 3"
proof -
  have wr: "without_replacement (first_positions 1337)"
    unfolding first_positions_def by (rule without_replacement_take)
  have k: "leading_cols [''Bot_or_Not''] [[1], [0], [1], [0::nat]] = 0"
    by (simp add: leading_cols_def)
  obtain df where df: "read_csv 0 [''Bot_or_Not''] [[1], [0], [1], [0::nat]] = Inr df"
    by (simp add: read_csv_def k Let_def)
  note inst = split_deterministic_disjoint
    [of first_positions df 0 "[''Bot_or_Not'']" "[[1], [0], [1], [0::nat]]", OF wr]
  from inst df k have N: "len df = 4" and dist: "distinct (index df)"
    by simp_all
  from inst df k have idx: "index df = [Inl 0, Inl 1, Inl 2, Inl 3]"
    by (simp add: upt_rec)
  have n: "nat (py_round (15 / 100 * of_nat 4)) = 1"
    by (simp add: py_round_def Let_def floor_three_fifths)
  from inst dist obtain val train where
    "train_val_split first_positions df = Inr (val, train)"
    "\<forall>rs'. rs' 1337 = first_positions 1337 \<longrightarrow> train_val_split rs' df = Inr (val, train)"
    "set (rows val) \<inter> set (rows train) = {}"
    "set (index val) \<inter> set (index train) = {}"
    "len val = nat (py_round (15 / 100 * of_nat (len df)))"
    "len val + len train = len df"
    by blast
  moreover from this have "len val = 1" "len train = 3"
    unfolding N n by simp_all
  moreover have "(first_positions(0 := \<lambda>N n. [])) 1337 = first_positions 1337"
    by simp
  ultimately show ?thesis using df idx by blast
qed

text \<open>
  C3, the sizes. In the file \<open>labelled_records\<close> every record has one field more than the
  header has names: \<^verbatim>\<open>read_csv\<close> takes the first field of every record as the index label
  of the row, here \<open>7\<close> four times. The split samples one row, \<^verbatim>\<open>drop\<close> removes every row
  with the label of that row, and the two partitions hold one row of the four.
\<close>

theorem repeated_labels_lose_rows:
  "read_csv 0 [''Bot_or_Not''] labelled_records = Inr labelled_table
   \<and> length labelled_records = 4
   \<and> index labelled_table = [Inr [7], Inr [7], Inr [7], Inr [7]]
   \<and> without_replacement (first_positions 1337)
   \<and> train_val_split first_positions labelled_table =
       Inr (labelled_table\<lparr>rows := [(Inr [7], map_of [(''Bot_or_Not'', 1)])]\<rparr>,
            labelled_table\<lparr>rows := []\<rparr>)
   \<and> len (labelled_table\<lparr>rows := [(Inr [7], map_of [(''Bot_or_Not'', 1)])]\<rparr>)
       + len (labelled_table\<lparr>rows := []\<rparr>) = 1"
proof -
  have wr: "without_replacement (first_positions 1337)"
    unfolding first_positions_def by (rule without_replacement_take)
  have df: "read_csv 0 [''Bot_or_Not''] labelled_records = Inr labelled_table"
    by (simp add: read_csv_def leading_cols_def Let_def upt_rec labelled_records_def
        labelled_table_def)
  have idx: "index labelled_table = [Inr [7], Inr [7], Inr [7], Inr [7]]"
    by (simp add: index_def labelled_table_def)
  have split: "train_val_split first_positions labelled_table =
      Inr (labelled_table\<lparr>rows := [(Inr [7], map_of [(''Bot_or_Not'', 1)])]\<rparr>,
           labelled_table\<lparr>rows := []\<rparr>)"
    by (simp add: train_val_split_def sample_df_def drop_df_def len_def index_def py_round_def
        Let_def floor_three_fifths first_positions_def labelled_table_def)
  from df idx wr split show ?thesis
    by (simp add: len_def labelled_records_def)
qed

section \<open>Properties of the dataset wrapper\<close>

lemma those_eq_Some: "those xs = Some ys \<longleftrightarrow> xs = map Some ys"
  by (induction xs arbitrary: ys) (auto split: option.splits)

lemma those_defined: "(\<forall>x \<in> set xs. x \<noteq> None) \<Longrightarrow> \<exists>ys. those xs = Some ys"
  by (induction xs) auto

declare shuffle_go.simps [simp del]

lemma mset_shuffle_go:
  "buf \<noteq> [] \<or> rest = [] \<Longrightarrow> mset (shuffle_go rnd buf rest) = mset buf + mset rest"
proof (induction rnd buf rest rule: shuffle_go.induct)
  case (1 rnd buf rest)
  show ?case
  proof (cases "buf = []")
    case True
    with "1.prems" show ?thesis by (simp add: shuffle_go.simps)
  next
    case False
    let ?i = "rnd 0 mod length buf"
    have i: "?i < length buf" using False by simp
    show ?thesis
    proof (cases rest)
      case Nil
      have "mset (shuffle_go (\<lambda>k. rnd (Suc k)) (take ?i buf @ drop (Suc ?i) buf) []) =
          mset (take ?i buf @ drop (Suc ?i) buf) + mset []"
        using "1.IH"(1) [OF False Nil] by simp
      moreover have "mset buf = add_mset (buf ! ?i) (mset (take ?i buf @ drop (Suc ?i) buf))"
        using id_take_nth_drop [OF i] by (metis mset.simps(2) mset_append union_mset_add_mset_right)
      ultimately show ?thesis
        using False Nil by (subst shuffle_go.simps) simp
    next
      case (Cons x xs)
      have "mset (shuffle_go (\<lambda>k. rnd (Suc k)) (buf[?i := x]) xs) = mset (buf[?i := x]) + mset xs"
        using "1.IH"(2) [OF False Cons] False by simp
      moreover have "mset (buf[?i := x]) = add_mset x (mset buf - {#buf ! ?i#})"
        using i by (rule mset_update)
      moreover have "buf ! ?i \<in># mset buf" using i by simp
      ultimately show ?thesis
        using False Cons by (subst shuffle_go.simps) simp
    qed
  qed
qed

lemma shuffle_go_any_order:
  "mset ys = mset buf \<Longrightarrow> \<exists>rnd. shuffle_go rnd buf [] = ys"
proof (induction ys arbitrary: buf)
  case Nil
  then show ?case by (simp add: shuffle_go.simps)
next
  case (Cons y ys)
  then have "y \<in> set buf" by (metis list.set_intros(1) set_mset_mset)
  then obtain i where i: "i < length buf" "buf ! i = y"
    by (auto simp: in_set_conv_nth)
  let ?buf = "take i buf @ drop (Suc i) buf"
  have "mset buf = add_mset y (mset ?buf)"
    using id_take_nth_drop [OF i(1)] i(2)
    by (metis mset.simps(2) mset_append union_mset_add_mset_right)
  with Cons.prems have "mset ys = mset ?buf" by simp
  from Cons.IH [OF this] obtain rnd where rnd: "shuffle_go rnd ?buf [] = ys" by blast
  let ?rnd = "\<lambda>k. case k of 0 \<Rightarrow> i | Suc j \<Rightarrow> rnd j"
  have "buf \<noteq> []" using i by auto
  moreover have "?rnd 0 mod length buf = i" using i by simp
  moreover have "(\<lambda>k. ?rnd (Suc k)) = rnd" by simp
  ultimately have "shuffle_go ?rnd buf [] = y # ys"
    using i rnd by (subst shuffle_go.simps) simp
  then show ?case by blast
qed

lemma mset_iterate:
  "0 < buffer_size ds \<Longrightarrow> mset (iterate rnd ds) = mset (elements ds)"
proof -
  assume "0 < buffer_size ds"
  then have "take (buffer_size ds) (elements ds) \<noteq> [] \<or> drop (buffer_size ds) (elements ds) = []"
    by (cases "elements ds") auto
  then have "mset (iterate rnd ds) =
      mset (take (buffer_size ds) (elements ds)) + mset (drop (buffer_size ds) (elements ds))"
    unfolding iterate_def by (rule mset_shuffle_go)
  also have "\<dots> = mset (elements ds)"
    by (metis append_take_drop_id mset_append)
  finally show ?thesis .
qed

lemma iterate_any_order:
  assumes "length (elements ds) \<le> buffer_size ds" and "mset ys = mset (elements ds)"
  shows "\<exists>rnd. iterate rnd ds = ys"
  using assms shuffle_go_any_order [of ys "elements ds"] by (simp add: iterate_def)

declare batch.simps [simp del]

lemma batch_Nil: "batch n [] = []"
  by (simp add: batch.simps)

lemma batch_Cons: "0 < n \<Longrightarrow> xs \<noteq> [] \<Longrightarrow> batch n xs = take n xs # batch n (drop n xs)"
  by (subst batch.simps) simp

lemma concat_batch: "0 < n \<Longrightarrow> concat (batch n xs) = xs"
proof (induction n xs rule: batch.induct)
  case (1 n xs)
  then show ?case by (cases "xs = []") (simp_all add: batch_Nil batch_Cons)
qed

lemma length_batch: "0 < n \<Longrightarrow> length (batch n xs) = (length xs + n - 1) div n"
proof (induction n xs rule: batch.induct)
  case (1 n xs)
  show ?case
  proof (cases "xs = []")
    case True
    with "1.prems" show ?thesis by (simp add: batch_Nil)
  next
    case False
    then have L: "0 < length xs" by simp
    have IH: "length (batch n (drop n xs)) = (length xs - n + n - 1) div n"
      using "1.IH" "1.prems" False by simp
    have "length xs + n - 1 = (length xs - 1) + n" using L by arith
    then have "(length xs + n - 1) div n = ((length xs - 1) + n) div n"
      by (simp only:)
    also have "\<dots> = (length xs - 1) div n + 1"
      using "1.prems" by (intro div_add_self2) simp
    finally have goal: "(length xs + n - 1) div n = Suc ((length xs - 1) div n)"
      by simp
    have "(length xs - n + n - 1) div n = (length xs - 1) div n"
    proof (cases "n \<le> length xs")
      case True
      then show ?thesis by simp
    next
      case False
      then have "length xs - n + n - 1 < n" "length xs - 1 < n" by simp_all
      then show ?thesis by simp
    qed
    with IH goal "1.prems" False show ?thesis by (simp add: batch_Cons)
  qed
qed

lemma batch_sizes: "0 < n \<Longrightarrow> b \<in> set (batch n xs) \<Longrightarrow> 0 < length b \<and> length b \<le> n"
proof (induction n xs rule: batch.induct)
  case (1 n xs)
  show ?case
  proof (cases "xs = []")
    case True
    with "1.prems" show ?thesis by (simp add: batch_Nil)
  next
    case False
    with "1.prems" have "b = take n xs \<or> b \<in> set (batch n (drop n xs))"
      by (simp add: batch_Cons)
    then show ?thesis
    proof
      assume "b = take n xs"
      with False "1.prems" show ?thesis by simp
    next
      assume "b \<in> set (batch n (drop n xs))"
      with "1.IH" "1.prems" False show ?thesis by simp
    qed
  qed
qed

lemma batch_full_but_last:
  "0 < n \<Longrightarrow> Suc i < length (batch n xs) \<Longrightarrow> length (batch n xs ! i) = n"
proof (induction n xs arbitrary: i rule: batch.induct)
  case (1 n xs)
  from "1.prems" have ne: "xs \<noteq> []" by (auto simp: batch_Nil)
  with "1.prems" have eq: "batch n xs = take n xs # batch n (drop n xs)"
    by (simp add: batch_Cons)
  with "1.prems" have more: "batch n (drop n xs) \<noteq> []" by auto
  then have "drop n xs \<noteq> []" by (auto simp: batch_Nil)
  then have long: "n < length xs" by simp
  show ?case
  proof (cases i)
    case 0
    with eq long show ?thesis by simp
  next
    case (Suc j)
    with "1.prems" eq have "Suc j < length (batch n (drop n xs))" by simp
    with "1.IH" "1.prems" ne have "length (batch n (drop n xs) ! j) = n" by simp
    with eq Suc show ?thesis by simp
  qed
qed

lemma ceiling_div_32: "nat \<lceil>real N / 32\<rceil> = (N + 32 - 1) div 32"
proof -
  have "\<lceil>real N / 32\<rceil> = \<lceil>of_int (int N) / (of_int 32 :: real)\<rceil>" by simp
  also have "\<dots> = - (- int N div 32)" by (rule ceiling_divide_eq_div)
  also have "\<dots> = int ((N + 32 - 1) div 32)" by (simp add: zdiv_int)
  finally show ?thesis by simp
qed

lemma dataframe_to_dataset_store:
  "q < length s \<Longrightarrow> snd (dataframe_to_dataset s r) ! q = s ! q"
  by (simp add: dataframe_to_dataset_def copy_def pop_def Let_def nth_append
      split: sum.splits option.splits prod.splits)

lemma dataframe_to_dataset_result:
  "fst (dataframe_to_dataset s r) =
     (if ''Bot_or_Not'' \<in> set (columns (s ! r))
      then case those (map (\<lambda>row. snd row ''Bot_or_Not'') (rows (s ! r))) of
             None \<Rightarrow> Inl (KeyError ''Bot_or_Not'')
           | Some labels \<Rightarrow>
               shuffle (length (rows (s ! r)))
                 (zip (map (\<lambda>row. (snd row)(''Bot_or_Not'' := None)) (rows (s ! r))) labels)
      else Inl (KeyError ''Bot_or_Not''))"
  by (simp add: dataframe_to_dataset_def copy_def pop_def Let_def len_def from_tensor_slices_def
      comp_def split: option.splits)

lemma dataframe_to_dataset_Inr:
  assumes "fst (dataframe_to_dataset s r) = Inr ds"
  shows "\<exists>labels. map (\<lambda>row. snd row ''Bot_or_Not'') (rows (s ! r)) = map Some labels
           \<and> rows (s ! r) \<noteq> [] \<and> ''Bot_or_Not'' \<in> set (columns (s ! r))
           \<and> elements ds = zip (map (\<lambda>row. (snd row)(''Bot_or_Not'' := None)) (rows (s ! r))) labels
           \<and> buffer_size ds = length (rows (s ! r))"
  using assms unfolding dataframe_to_dataset_result shuffle_def
  by (auto split: if_splits option.splits simp: those_eq_Some)

lemma dataframe_to_dataset_succeeds:
  assumes "''Bot_or_Not'' \<in> set (columns (s ! r))" and "rows (s ! r) \<noteq> []"
    and "\<forall>row \<in> set (rows (s ! r)). snd row ''Bot_or_Not'' \<noteq> None"
  shows "\<exists>ds. fst (dataframe_to_dataset s r) = Inr ds"
proof -
  from assms(3) have "\<forall>x \<in> set (map (\<lambda>row. snd row ''Bot_or_Not'') (rows (s ! r))). x \<noteq> None"
    by simp
  from those_defined [OF this] obtain labels where
    "those (map (\<lambda>row. snd row ''Bot_or_Not'') (rows (s ! r))) = Some labels" by blast
  with assms(1,2) show ?thesis
    unfolding dataframe_to_dataset_result shuffle_def by simp
qed

lemma elements_of_rows:
  assumes "map (\<lambda>row. snd row L) rs = map Some labels"
    and "e \<in> set (zip (map (\<lambda>row. (snd row)(L := None)) rs) labels)"
  shows "\<exists>row \<in> set rs. fst e = (snd row)(L := None) \<and> snd row L = Some (snd e)"
proof -
  from assms(1) have len: "length labels = length rs"
    by (metis length_map)
  from assms(2) obtain i where i: "i < length rs" "i < length labels"
    and e: "e = (map (\<lambda>row. (snd row)(L := None)) rs ! i, labels ! i)"
    by (auto simp: in_set_zip)
  from assms(1) i have "snd (rs ! i) L = Some (labels ! i)"
    by (metis (mono_tags, lifting) nth_map)
  with i e show ?thesis by (intro bexI [of _ "rs ! i"]) simp_all
qed

lemma length_elements:
  assumes "fst (dataframe_to_dataset s r) = Inr ds"
  shows "length (elements ds) = length (rows (s ! r))" and "0 < buffer_size ds"
    and "buffer_size ds = length (elements ds)"
proof -
  from dataframe_to_dataset_Inr [OF assms] obtain labels where
    l: "map (\<lambda>row. snd row ''Bot_or_Not'') (rows (s ! r)) = map Some labels"
    and ne: "rows (s ! r) \<noteq> []"
    and el: "elements ds = zip (map (\<lambda>row. (snd row)(''Bot_or_Not'' := None)) (rows (s ! r))) labels"
    and b: "buffer_size ds = length (rows (s ! r))" by blast
  from l have "length labels = length (rows (s ! r))" by (metis length_map)
  with el show 1: "length (elements ds) = length (rows (s ! r))" by simp
  from b ne show "0 < buffer_size ds" by simp
  from 1 b show "buffer_size ds = length (elements ds)" by simp
qed

lemma yielded_pairs:
  assumes "fst (dataframe_to_dataset s r) = Inr ds" and "e \<in> set (iterate rnd ds)"
  shows "fst e ''Bot_or_Not'' = None
    \<and> (\<exists>row \<in> set (rows (s ! r)). fst e = (snd row)(''Bot_or_Not'' := None)
          \<and> snd row ''Bot_or_Not'' = Some (snd e))"
proof -
  from dataframe_to_dataset_Inr [OF assms(1)] obtain labels where
    l: "map (\<lambda>row. snd row ''Bot_or_Not'') (rows (s ! r)) = map Some labels"
    and el: "elements ds = zip (map (\<lambda>row. (snd row)(''Bot_or_Not'' := None)) (rows (s ! r))) labels"
    by blast
  have "mset (iterate rnd ds) = mset (elements ds)"
    using length_elements(2) [OF assms(1)] by (rule mset_iterate)
  then have "set (iterate rnd ds) = set (elements ds)" by (rule mset_eq_setD)
  with assms(2) el have "e \<in> set (zip (map (\<lambda>row. (snd row)(''Bot_or_Not'' := None)) (rows (s ! r))) labels)"
    by simp
  from elements_of_rows [OF l this] obtain row where
    row: "row \<in> set (rows (s ! r))" "fst e = (snd row)(''Bot_or_Not'' := None)"
      "snd row ''Bot_or_Not'' = Some (snd e)" by blast
  then have "fst e ''Bot_or_Not'' = None" by simp
  with row show ?thesis by blast
qed

lemma those_None: "None \<in> set xs \<Longrightarrow> those xs = None"
  by (induction xs) (auto split: option.splits)

lemma length_snd_stack: "length (snd (stack b)) = length b"
  by (simp add: stack_def)

lemma length_fst_stack: "fst (stack b) name = Some vs \<Longrightarrow> length vs = length b"
  unfolding stack_def fst_conv those_eq_Some by (metis length_map)

lemma dom_fst_stack:
  assumes "b \<noteq> []" and "\<forall>e \<in> set b. dom (fst e) = D"
  shows "dom (fst (stack b)) = D"
proof (intro set_eqI iffI)
  fix name assume "name \<in> dom (fst (stack b))"
  then have "those (map (\<lambda>e. fst e name) b) \<noteq> None" by (auto simp: stack_def)
  then have "None \<notin> set (map (\<lambda>e. fst e name) b)"
    using those_None [of "map (\<lambda>e. fst e name) b"] by auto
  moreover from assms(1) obtain e where "e \<in> set b" by (cases b) auto
  ultimately have "fst e name \<noteq> None" by force
  with \<open>e \<in> set b\<close> assms(2) show "name \<in> D" by blast
next
  fix name assume "name \<in> D"
  with assms(2) have "\<forall>x \<in> set (map (\<lambda>e. fst e name) b). x \<noteq> None" by auto
  from those_defined [OF this] show "name \<in> dom (fst (stack b))"
    by (auto simp: stack_def)
qed

lemma batches_props:
  assumes pos: "0 < buffer_size ds"
  shows "length (batches rnd ds) = nat \<lceil>real (length (elements ds)) / 32\<rceil>"
    and "b \<in> set (batches rnd ds) \<Longrightarrow> 0 < length (snd b) \<and> length (snd b) \<le> 32"
    and "b \<in> set (batches rnd ds) \<Longrightarrow> fst b name = Some vs \<Longrightarrow> length vs = length (snd b)"
    and "Suc i < length (batches rnd ds) \<Longrightarrow> length (snd (batches rnd ds ! i)) = 32"
    and "concat (map snd (batches rnd ds)) = map snd (iterate rnd ds)"
    and "b \<in> set (batches rnd ds) \<Longrightarrow> \<forall>e \<in> set (elements ds). dom (fst e) = D \<Longrightarrow> dom (fst b) = D"
proof -
  have len: "length (iterate rnd ds) = length (elements ds)"
    using mset_iterate [OF pos] by (rule mset_eq_length)
  show "length (batches rnd ds) = nat \<lceil>real (length (elements ds)) / 32\<rceil>"
    by (simp add: batches_def length_batch len ceiling_div_32)
  have chunk: "\<exists>c \<in> set (batch 32 (iterate rnd ds)). b = stack c" if "b \<in> set (batches rnd ds)"
    using that by (auto simp: batches_def)
  show "0 < length (snd b) \<and> length (snd b) \<le> 32" if "b \<in> set (batches rnd ds)"
  proof -
    from chunk [OF that] obtain c where c: "c \<in> set (batch 32 (iterate rnd ds))" "b = stack c"
      by blast
    from batch_sizes [OF _ c(1)] have "0 < length c \<and> length c \<le> 32" by simp
    with c(2) show ?thesis by (simp add: length_snd_stack)
  qed
  show "length vs = length (snd b)" if "b \<in> set (batches rnd ds)" "fst b name = Some vs"
    using chunk [OF that(1)] that(2) by (auto simp: length_snd_stack dest: length_fst_stack)
  show "length (snd (batches rnd ds ! i)) = 32" if "Suc i < length (batches rnd ds)"
  proof -
    from that have i: "Suc i < length (batch 32 (iterate rnd ds))" by (simp add: batches_def)
    then have "length (batch 32 (iterate rnd ds) ! i) = 32" by (intro batch_full_but_last) simp_all
    with i show ?thesis by (simp add: batches_def length_snd_stack)
  qed
  have "concat (map snd (batches rnd ds)) = concat (map (map snd) (batch 32 (iterate rnd ds)))"
    by (simp add: batches_def stack_def comp_def)
  also have "\<dots> = map snd (concat (batch 32 (iterate rnd ds)))"
    by (simp add: map_concat)
  finally show "concat (map snd (batches rnd ds)) = map snd (iterate rnd ds)"
    by (simp add: concat_batch)
  show "dom (fst b) = D" if "b \<in> set (batches rnd ds)" "\<forall>e \<in> set (elements ds). dom (fst e) = D"
  proof -
    from chunk [OF that(1)] obtain c where c: "c \<in> set (batch 32 (iterate rnd ds))" "b = stack c"
      by blast
    then have ne: "c \<noteq> []" using batch_sizes [of 32 c "iterate rnd ds"] by auto
    have "set c \<subseteq> set (concat (batch 32 (iterate rnd ds)))" using c(1) by auto
    also have "\<dots> = set (iterate rnd ds)" by (simp add: concat_batch)
    also have "\<dots> = set (elements ds)" using mset_iterate [OF pos] by (rule mset_eq_setD)
    finally have "\<forall>e \<in> set c. dom (fst e) = D" using that(2) by blast
    with ne c(2) show ?thesis by (simp add: dom_fst_stack)
  qed
qed

section \<open>Claims about the dataset wrapper\<close>

text \<open>
  C9. \<^verbatim>\<open>dataframe_to_dataset\<close> leaves every object that was in the store before the call
  as it was, whether the call returns or raises; so the caller's table still has its
  \<^verbatim>\<open>Bot_or_Not\<close> column and all its rows. When the call returns a dataset, every pair it
  yields, in any pass, is made from a row of the caller's table: the cells of the row
  without the cell of the label column, and the label of that row. The call returns a
  dataset, which yields as many pairs as the table has rows, for every table that has the
  label column, a label in every row and at least one row.
\<close>

theorem dataframe_to_dataset_leaves_argument:
  "(\<forall>q < length s. snd (dataframe_to_dataset s r) ! q = s ! q)
   \<and> (\<forall>ds. fst (dataframe_to_dataset s r) = Inr ds \<longrightarrow>
         (\<forall>rnd. \<forall>e \<in> set (iterate rnd ds).
            fst e ''Bot_or_Not'' = None
            \<and> (\<exists>row \<in> set (rows (s ! r)).
                  fst e = (snd row)(''Bot_or_Not'' := None)
                  \<and> snd row ''Bot_or_Not'' = Some (snd e))))
   \<and> (''Bot_or_Not'' \<in> set (columns (s ! r)) \<and> rows (s ! r) \<noteq> []
        \<and> (\<forall>row \<in> set (rows (s ! r)). snd row ''Bot_or_Not'' \<noteq> None) \<longrightarrow>
         (\<exists>ds. fst (dataframe_to_dataset s r) = Inr ds
            \<and> (\<forall>rnd. length (iterate rnd ds) = length (rows (s ! r)))))"
proof (intro conjI allI impI ballI)
  fix q assume "q < length s"
  then show "snd (dataframe_to_dataset s r) ! q = s ! q"
    by (rule dataframe_to_dataset_store)
next
  fix ds rnd e
  assume "fst (dataframe_to_dataset s r) = Inr ds" and "e \<in> set (iterate rnd ds)"
  then show "fst e ''Bot_or_Not'' = None"
    and "\<exists>row \<in> set (rows (s ! r)).
          fst e = (snd row)(''Bot_or_Not'' := None) \<and> snd row ''Bot_or_Not'' = Some (snd e)"
    using yielded_pairs by blast+
next
  assume a: "''Bot_or_Not'' \<in> set (columns (s ! r)) \<and> rows (s ! r) \<noteq> []
    \<and> (\<forall>row \<in> set (rows (s ! r)). snd row ''Bot_or_Not'' \<noteq> None)"
  then obtain ds where ds: "fst (dataframe_to_dataset s r) = Inr ds"
    using dataframe_to_dataset_succeeds [of s r] by blast
  have "length (iterate rnd ds) = length (rows (s ! r))" for rnd
  proof -
    have "mset (iterate rnd ds) = mset (elements ds)"
      using length_elements(2) [OF ds] by (rule mset_iterate)
    then have "length (iterate rnd ds) = length (elements ds)"
      by (rule mset_eq_length)
    with length_elements(1) [OF ds] show ?thesis by simp
  qed
  with ds show "\<exists>ds. fst (dataframe_to_dataset s r) = Inr ds
      \<and> (\<forall>rnd. length (iterate rnd ds) = length (rows (s ! r)))" by blast
qed

text \<open>
  The theorem at the store that holds the table \<open>table_distinct\<close> alone: the table is
  unchanged after the call, and the dataset yields four pairs: the \<^verbatim>\<open>followers\<close> cell of a
  row, without the label cell, and the label of the row.
\<close>

theorem dataframe_to_dataset_leaves_argument_witness:
  "snd (dataframe_to_dataset [table_distinct] 0) ! 0 = table_distinct
   \<and> ''Bot_or_Not'' \<in> set (columns (snd (dataframe_to_dataset [table_distinct] 0) ! 0))
   \<and> (\<exists>ds. fst (dataframe_to_dataset [table_distinct] 0) = Inr ds
         \<and> length (iterate (\<lambda>k. k) ds) = 4
         \<and> elements ds = [([''followers'' \<mapsto> 100], 1), ([''followers'' \<mapsto> 10], 0),
              ([''followers'' \<mapsto> 250], 1), ([''followers'' \<mapsto> 40], 0)])"
proof -
  note inst = dataframe_to_dataset_leaves_argument [of "[table_distinct]" 0]
  from inst have same: "snd (dataframe_to_dataset [table_distinct] 0) ! 0 = table_distinct"
    by simp
  then have col: "''Bot_or_Not'' \<in> set (columns (snd (dataframe_to_dataset [table_distinct] 0) ! 0))"
    by (simp add: table_distinct_def)
  have pre: "''Bot_or_Not'' \<in> set (columns ([table_distinct] ! 0)) \<and> rows ([table_distinct] ! 0) \<noteq> []
      \<and> (\<forall>row \<in> set (rows ([table_distinct] ! 0)). snd row ''Bot_or_Not'' \<noteq> None)"
    by (simp add: table_distinct_def)
  with inst obtain ds where ds: "fst (dataframe_to_dataset [table_distinct] 0) = Inr ds"
    and n: "\<forall>rnd. length (iterate rnd ds) = length (rows ([table_distinct] ! 0))"
    by blast
  from n have len: "length (iterate (\<lambda>k. k) ds) = 4"
    by (simp add: table_distinct_def)
  have "fst (dataframe_to_dataset [table_distinct] 0) =
      Inr \<lparr>elements = [([''followers'' \<mapsto> 100], 1), ([''followers'' \<mapsto> 10], 0),
              ([''followers'' \<mapsto> 250], 1), ([''followers'' \<mapsto> 40], 0)],
           buffer_size = 4\<rparr>"
    by (simp add: dataframe_to_dataset_result shuffle_def table_distinct_def)
  with ds have "elements ds = [([''followers'' \<mapsto> 100], 1), ([''followers'' \<mapsto> 10], 0),
              ([''followers'' \<mapsto> 250], 1), ([''followers'' \<mapsto> 40], 0)]"
    by auto
  with same col ds len show ?thesis by blast
qed

text \<open>
  C7, for a partition that is not empty. For every table with at least one row, with the
  label column and with a cell for every column in every row, the wrapper returns a
  dataset whose shuffle buffer holds the whole partition: every pass yields a permutation
  of the pairs, and every permutation of the pairs is the result of a pass. A pass of the
  batched dataset yields \<open>\<lceil>N / 32\<rceil>\<close> batches; each batch maps every feature name to an
  array that is as long as the array of labels it is paired with, of at least one and at
  most 32 values; every batch but the last has exactly 32; and the labels of the batches,
  one after the other, are the labels of the pass.
\<close>

theorem wrapper_shuffles_all_and_batches_by_32:
  assumes "rows (s ! r) \<noteq> []" and "''Bot_or_Not'' \<in> set (columns (s ! r))"
    and "\<forall>row \<in> set (rows (s ! r)). dom (snd row) = set (columns (s ! r))"
  shows "\<exists>ds. fst (dataframe_to_dataset s r) = Inr ds
           \<and> buffer_size ds = length (elements ds) \<and> length (elements ds) = len (s ! r)
           \<and> (\<forall>rnd. mset (iterate rnd ds) = mset (elements ds))
           \<and> (\<forall>ys. mset ys = mset (elements ds) \<longrightarrow> (\<exists>rnd. iterate rnd ds = ys))
           \<and> (\<forall>rnd. length (batches rnd ds) = nat \<lceil>real (len (s ! r)) / 32\<rceil>
                 \<and> concat (map snd (batches rnd ds)) = map snd (iterate rnd ds)
                 \<and> (\<forall>b \<in> set (batches rnd ds).
                       0 < length (snd b) \<and> length (snd b) \<le> 32
                       \<and> dom (fst b) = set (columns (s ! r)) - {''Bot_or_Not''}
                       \<and> (\<forall>name vs. fst b name = Some vs \<longrightarrow> length vs = length (snd b)))
                 \<and> (\<forall>i. Suc i < length (batches rnd ds) \<longrightarrow>
                       length (snd (batches rnd ds ! i)) = 32))"
proof -
  from assms have "\<forall>row \<in> set (rows (s ! r)). snd row ''Bot_or_Not'' \<noteq> None"
    by (metis domIff)
  with assms(1,2) obtain ds where ds: "fst (dataframe_to_dataset s r) = Inr ds"
    using dataframe_to_dataset_succeeds [of s r] by blast
  note n = length_elements [OF ds]
  have n1: "length (elements ds) = len (s ! r)" using n(1) by (simp add: len_def)
  have perm: "\<forall>rnd. mset (iterate rnd ds) = mset (elements ds)"
    using mset_iterate [OF n(2)] by blast
  have full: "\<forall>ys. mset ys = mset (elements ds) \<longrightarrow> (\<exists>rnd. iterate rnd ds = ys)"
    using iterate_any_order [of ds] n(3) by simp
  have doms: "\<forall>e \<in> set (elements ds). dom (fst e) = set (columns (s ! r)) - {''Bot_or_Not''}"
  proof
    fix e assume "e \<in> set (elements ds)"
    then have "e \<in> set (iterate (\<lambda>k. 0) ds)"
      using mset_iterate [OF n(2), of "\<lambda>k. 0"] by (metis mset_eq_setD)
    from yielded_pairs [OF ds this] obtain row where
      "row \<in> set (rows (s ! r))" "fst e = (snd row)(''Bot_or_Not'' := None)" by blast
    with assms(3) show "dom (fst e) = set (columns (s ! r)) - {''Bot_or_Not''}" by auto
  qed
  have b: "length (batches rnd ds) = nat \<lceil>real (len (s ! r)) / 32\<rceil>
      \<and> concat (map snd (batches rnd ds)) = map snd (iterate rnd ds)
      \<and> (\<forall>b \<in> set (batches rnd ds).
            0 < length (snd b) \<and> length (snd b) \<le> 32
            \<and> dom (fst b) = set (columns (s ! r)) - {''Bot_or_Not''}
            \<and> (\<forall>name vs. fst b name = Some vs \<longrightarrow> length vs = length (snd b)))
      \<and> (\<forall>i. Suc i < length (batches rnd ds) \<longrightarrow> length (snd (batches rnd ds ! i)) = 32)" for rnd
  proof (intro conjI ballI allI impI)
    show "length (batches rnd ds) = nat \<lceil>real (len (s ! r)) / 32\<rceil>"
      using batches_props(1) [OF n(2)] n1 by simp
    show "concat (map snd (batches rnd ds)) = map snd (iterate rnd ds)"
      by (rule batches_props(5) [OF n(2)])
  next
    fix b assume b: "b \<in> set (batches rnd ds)"
    from batches_props(2) [OF n(2) b] show "0 < length (snd b)" and "length (snd b) \<le> 32"
      by simp_all
    from batches_props(6) [OF n(2) b doms]
    show "dom (fst b) = set (columns (s ! r)) - {''Bot_or_Not''}" .
    fix name vs assume "fst b name = Some vs"
    with batches_props(3) [OF n(2) b] show "length vs = length (snd b)" by simp
  next
    fix i assume "Suc i < length (batches rnd ds)"
    then show "length (snd (batches rnd ds ! i)) = 32"
      by (rule batches_props(4) [OF n(2)])
  qed
  show ?thesis
  proof (intro exI [of _ ds] conjI)
    show "fst (dataframe_to_dataset s r) = Inr ds" by (rule ds)
    show "buffer_size ds = length (elements ds)" by (rule n(3))
    show "length (elements ds) = len (s ! r)" by (rule n1)
    show "\<forall>rnd. mset (iterate rnd ds) = mset (elements ds)" by (rule perm)
    show "\<forall>ys. mset ys = mset (elements ds) \<longrightarrow> (\<exists>rnd. iterate rnd ds = ys)" by (rule full)
    show "\<forall>rnd. length (batches rnd ds) = nat \<lceil>real (len (s ! r)) / 32\<rceil>
      \<and> concat (map snd (batches rnd ds)) = map snd (iterate rnd ds)
      \<and> (\<forall>b \<in> set (batches rnd ds).
            0 < length (snd b) \<and> length (snd b) \<le> 32
            \<and> dom (fst b) = set (columns (s ! r)) - {''Bot_or_Not''}
            \<and> (\<forall>name vs. fst b name = Some vs \<longrightarrow> length vs = length (snd b)))
      \<and> (\<forall>i. Suc i < length (batches rnd ds) \<longrightarrow> length (snd (batches rnd ds ! i)) = 32)"
      using b by (intro allI)
  qed
qed

text \<open>
  The theorem at a table of 33 rows: the buffer holds 33 pairs, the pass in reverse order
  is possible, and a pass yields two batches, the first of 32 pairs.
\<close>

theorem wrapper_shuffles_all_and_batches_by_32_witness:
  "\<exists>ds. fst (dataframe_to_dataset [table_of_33] 0) = Inr ds
     \<and> buffer_size ds = 33 \<and> length (elements ds) = 33
     \<and> (\<exists>rnd. iterate rnd ds = rev (elements ds))
     \<and> length (batches (\<lambda>k. 0) ds) = 2
     \<and> length (snd (batches (\<lambda>k. 0) ds ! 0)) = 32
     \<and> length (concat (map snd (batches (\<lambda>k. 0) ds))) = 33"
proof -
  have 1: "rows ([table_of_33] ! 0) \<noteq> []" by (simp add: table_of_33_def)
  have 2: "''Bot_or_Not'' \<in> set (columns ([table_of_33] ! 0))" by (simp add: table_of_33_def)
  have 3: "\<forall>row \<in> set (rows ([table_of_33] ! 0)). dom (snd row) = set (columns ([table_of_33] ! 0))"
    by (auto simp: table_of_33_def)
  have len: "len ([table_of_33] ! 0) = 33" by (simp add: table_of_33_def len_def)
  from wrapper_shuffles_all_and_batches_by_32 [of "[table_of_33]" 0, OF 1 2 3]
  obtain ds where ds: "fst (dataframe_to_dataset [table_of_33] 0) = Inr ds"
    and b: "buffer_size ds = length (elements ds)" "length (elements ds) = 33"
    and p: "\<forall>rnd. mset (iterate rnd ds) = mset (elements ds)"
    and f: "\<forall>ys. mset ys = mset (elements ds) \<longrightarrow> (\<exists>rnd. iterate rnd ds = ys)"
    and a: "\<forall>rnd. length (batches rnd ds) = nat \<lceil>real 33 / 32\<rceil>
                 \<and> concat (map snd (batches rnd ds)) = map snd (iterate rnd ds)
                 \<and> (\<forall>b \<in> set (batches rnd ds).
                       0 < length (snd b) \<and> length (snd b) \<le> 32
                       \<and> dom (fst b) = set (columns ([table_of_33] ! 0)) - {''Bot_or_Not''}
                       \<and> (\<forall>name vs. fst b name = Some vs \<longrightarrow> length vs = length (snd b)))
                 \<and> (\<forall>i. Suc i < length (batches rnd ds) \<longrightarrow>
                       length (snd (batches rnd ds ! i)) = 32)"
    unfolding len by (elim exE conjE) (rule that)
  from a [THEN spec, of "\<lambda>k. 0"]
  have n: "length (batches (\<lambda>k. 0) ds) = nat \<lceil>real 33 / 32\<rceil>"
    and c: "concat (map snd (batches (\<lambda>k. 0) ds)) = map snd (iterate (\<lambda>k. 0) ds)"
    and l: "\<forall>i. Suc i < length (batches (\<lambda>k. 0) ds) \<longrightarrow> length (snd (batches (\<lambda>k. 0) ds ! i)) = 32"
    by simp_all
  have "nat \<lceil>real 33 / 32\<rceil> = 2" by (simp add: ceiling_div_32)
  with n have n2: "length (batches (\<lambda>k. 0) ds) = 2" by simp
  from l [THEN spec, of 0] n2 have l0: "length (snd (batches (\<lambda>k. 0) ds ! 0)) = 32" by simp
  have "mset (rev (elements ds)) = mset (elements ds)" by simp
  with f [THEN spec, of "rev (elements ds)"] have r: "\<exists>rnd. iterate rnd ds = rev (elements ds)"
    by (rule mp)
  from p [THEN spec, of "\<lambda>k. 0"] have "length (iterate (\<lambda>k. 0) ds) = length (elements ds)"
    by (rule mset_eq_length)
  with c b(2) have c33: "length (concat (map snd (batches (\<lambda>k. 0) ds))) = 33" by simp
  from b have b33: "buffer_size ds = 33" by simp
  show ?thesis
    by (intro exI [of _ ds] conjI) (fact ds b33 b(2) r n2 l0 c33)+
qed

text \<open>
  For the empty partition the claim promises \<open>\<lceil>0 / 32\<rceil> = 0\<close> batches; the wrapper asks for
  a shuffle buffer of size \<open>len(dataframe) = 0\<close>, which tf.data rejects, so no dataset
  is returned.
\<close>

theorem empty_partition_is_rejected:
  "fst (dataframe_to_dataset [empty_table] 0) =
     Inl (InvalidArgument ''buffer_size must be greater than zero'')
   \<and> (\<nexists>ds. fst (dataframe_to_dataset [empty_table] 0) = Inr ds)
   \<and> len empty_table = 0"
  by (simp add: dataframe_to_dataset_result shuffle_def empty_table_def len_def)

section \<open>Properties of the feature encoders and of the model\<close>

lemma those_map_Some: "those (map Some xs) = Some xs"
  by (induction xs) auto

lemma fst_stack_defined:
  assumes "\<forall>e \<in> set c. fst e name \<noteq> None"
  shows "fst (stack c) name = Some (map (\<lambda>e. the (fst e name)) c)"
proof -
  have "map (\<lambda>e. fst e name) c = map Some (map (\<lambda>e. the (fst e name)) c)"
    using assms by (induction c) auto
  then have "those (map (\<lambda>e. fst e name) c) = Some (map (\<lambda>e. the (fst e name)) c)"
    by (simp only: those_map_Some)
  then show ?thesis by (simp add: stack_def)
qed

lemma set_batch_subset: "0 < n \<Longrightarrow> c \<in> set (batch n xs) \<Longrightarrow> set c \<subseteq> set xs"
  using concat_batch [of n xs] by (metis Sup_upper image_eqI set_concat)

text \<open>
  A pass over the feature: when every element has the feature, the arrays hold, in the
  order of the pass, the values of the feature; when an element lacks it, the pass raises.
\<close>

lemma feature_ds_batches:
  assumes pos: "0 < buffer_size ds" and def: "\<forall>e \<in> set (elements ds). fst e name \<noteq> None"
  shows "\<exists>arrays. feature_ds name (batches rnd ds) = Inr arrays
           \<and> mset (concat arrays) = image_mset (\<lambda>e. the (fst e name)) (mset (elements ds))"
proof -
  let ?g = "\<lambda>e. the (fst e name)"
  let ?chunks = "batch 32 (iterate rnd ds)"
  have set_it: "set (iterate rnd ds) = set (elements ds)"
    using mset_iterate [OF pos] by (rule mset_eq_setD)
  have "fst (stack c) name = Some (map ?g c)" if "c \<in> set ?chunks" for c
  proof (rule fst_stack_defined)
    from set_batch_subset [OF _ that] have "set c \<subseteq> set (elements ds)" using set_it by simp
    with def show "\<forall>e \<in> set c. fst e name \<noteq> None" by blast
  qed
  then have "map (\<lambda>b. fst b name) (batches rnd ds) = map Some (map (map ?g) ?chunks)"
    by (simp add: batches_def)
  then have res: "feature_ds name (batches rnd ds) = Inr (map (map ?g) ?chunks)"
    unfolding feature_ds_def by (simp only: those_map_Some option.case)
  have "concat (map (map ?g) ?chunks) = map ?g (concat ?chunks)"
    by (simp add: map_concat)
  also have "\<dots> = map ?g (iterate rnd ds)" by (simp add: concat_batch)
  finally have "mset (concat (map (map ?g) ?chunks)) = image_mset ?g (mset (iterate rnd ds))"
    by simp
  with mset_iterate [OF pos] res show ?thesis by simp
qed

lemma feature_ds_missing:
  assumes pos: "0 < buffer_size ds" and e: "e \<in> set (elements ds)" "fst e name = None"
  shows "feature_ds name (batches rnd ds) = Inl (KeyError name)"
proof -
  have "e \<in> set (concat (batch 32 (iterate rnd ds)))"
    using e(1) mset_iterate [OF pos, of rnd] by (simp add: concat_batch) (metis mset_eq_setD)
  then obtain c where c: "c \<in> set (batch 32 (iterate rnd ds))" "e \<in> set c" by auto
  from c(2) e(2) have "None \<in> set (map (\<lambda>e. fst e name) c)" by force
  then have "fst (stack c) name = None" by (simp add: stack_def those_None)
  with c(1) have "None \<in> set (map (\<lambda>b. fst b name) (batches rnd ds))"
    by (force simp: batches_def)
  then show ?thesis by (simp add: feature_ds_def those_None)
qed

text \<open>The statistics a pass learns do not depend on the order of the pass.\<close>

lemma adapt_normalization_mset:
  assumes "mset (concat arrays) = mset (concat arrays')"
  shows "adapt_normalization fl arrays = adapt_normalization fl arrays'"
proof -
  have sum: "sum_list (map f (concat arrays)) = sum_list (map f (concat arrays'))" for f :: "real \<Rightarrow> real"
    using assms by (metis mset_map sum_mset_sum_list)
  from sum [of "\<lambda>x. x"] have s: "sum_list (concat arrays) = sum_list (concat arrays')" by simp
  have l: "length (concat arrays) = length (concat arrays')"
    using assms by (rule mset_eq_length)
  show ?thesis
    unfolding adapt_normalization_def Let_def s l using sum by simp
qed

lemma fold_max_set: "fold max xs (a :: int) = Max (insert a (set xs))"
  by (metis Max.set_eq_fold list.simps(15))

lemma adapt_category_mset:
  assumes "mset (concat arrays) = mset (concat arrays')"
  shows "adapt_category arrays = adapt_category arrays'"
proof -
  from assms have "set (concat arrays) = set (concat arrays')" by (rule mset_eq_setD)
  then show ?thesis unfolding adapt_category_def fold_max_set by simp
qed

lemma encode_numerical_feature_result:
  assumes "0 < buffer_size ds"
    and "map (\<lambda>e. fst e name) (elements ds) = map Some column"
  shows "encode_numerical_feature fl rnd feature name ds =
     Inr (feature, Normalization (adapt_normalization fl [map to_float column]))"
proof -
  from assms(2) have def: "\<forall>e \<in> set (elements ds). fst e name \<noteq> None"
    by (metis (mono_tags, lifting) map_eq_conv option.distinct(1) length_map in_set_conv_nth nth_map)
  from assms(2) have col: "map (\<lambda>e. the (fst e name)) (elements ds) = column"
    by (metis (mono_tags, lifting) length_map nth_equalityI nth_map option.sel)
  from feature_ds_batches [OF assms(1) def, of rnd] obtain arrays where
    a: "feature_ds name (batches rnd ds) = Inr arrays"
    and m: "mset (concat arrays) = image_mset (\<lambda>e. the (fst e name)) (mset (elements ds))"
    by blast
  from m col have "mset (concat arrays) = mset column" by (metis mset_map)
  then have "mset (concat (map (map to_float) arrays)) = mset (concat [map to_float column])"
    by (simp add: map_concat [symmetric] del: mset_map) (metis mset_map)
  then have "adapt_normalization fl (map (map to_float) arrays) = adapt_normalization fl [map to_float column]"
    by (rule adapt_normalization_mset)
  with a show ?thesis by (simp add: encode_numerical_feature_def)
qed

lemma encode_integer_categorical_feature_result:
  assumes "0 < buffer_size ds"
    and "map (\<lambda>e. fst e name) (elements ds) = map Some column"
  shows "encode_integer_categorical_feature rnd feature name ds =
     Inr (feature, CategoryEncoding (adapt_category [map to_int column]))"
proof -
  from assms(2) have def: "\<forall>e \<in> set (elements ds). fst e name \<noteq> None"
    by (metis (mono_tags, lifting) map_eq_conv option.distinct(1) length_map in_set_conv_nth nth_map)
  from assms(2) have col: "map (\<lambda>e. the (fst e name)) (elements ds) = column"
    by (metis (mono_tags, lifting) length_map nth_equalityI nth_map option.sel)
  from feature_ds_batches [OF assms(1) def, of rnd] obtain arrays where
    a: "feature_ds name (batches rnd ds) = Inr arrays"
    and m: "mset (concat arrays) = image_mset (\<lambda>e. the (fst e name)) (mset (elements ds))"
    by blast
  from m col have "mset (concat arrays) = mset column" by (metis mset_map)
  then have "mset (concat (map (map to_int) arrays)) = mset (concat [map to_int column])"
    by (simp add: map_concat [symmetric] del: mset_map) (metis mset_map)
  then have "adapt_category (map (map to_int) arrays) = adapt_category [map to_int column]"
    by (rule adapt_category_mset)
  with a show ?thesis by (simp add: encode_integer_categorical_feature_def)
qed

lemma encode_numerical_feature_Inr:
  assumes "0 < buffer_size ds" and "encode_numerical_feature fl rnd feature name ds = Inr x"
  shows "\<forall>e \<in> set (elements ds). fst e name \<noteq> None"
proof (rule ccontr)
  assume "\<not> (\<forall>e \<in> set (elements ds). fst e name \<noteq> None)"
  then obtain e where "e \<in> set (elements ds)" "fst e name = None" by blast
  from feature_ds_missing [OF assms(1) this] assms(2) show False
    by (simp add: encode_numerical_feature_def)
qed

lemma encode_integer_categorical_feature_Inr:
  assumes "0 < buffer_size ds" and "encode_integer_categorical_feature rnd feature name ds = Inr x"
  shows "\<forall>e \<in> set (elements ds). fst e name \<noteq> None"
proof (rule ccontr)
  assume "\<not> (\<forall>e \<in> set (elements ds). fst e name \<noteq> None)"
  then obtain e where "e \<in> set (elements ds)" "fst e name = None" by blast
  from feature_ds_missing [OF assms(1) this] assms(2) show False
    by (simp add: encode_integer_categorical_feature_def)
qed

lemma defined_column:
  "\<forall>e \<in> set es. fst e name \<noteq> None \<Longrightarrow>
   map (\<lambda>e. fst e name) es = map Some (map (\<lambda>e. the (fst e name)) es)"
  by (induction es) auto

lemma collect_Cons_Inr:
  "collect (x # xs) = Inr ys \<longleftrightarrow> (\<exists>a as. x = Inr a \<and> collect xs = Inr as \<and> ys = a # as)"
  by (auto split: sum.splits)

text \<open>
  What the eight calls return when they all return: each layer's state is the state
  adapted from the column its call names, in table order of the dataset.
\<close>

lemma encoded_features_Inr:
  assumes pos: "0 < buffer_size ds" and enc: "encoded_features fl rnds ds = Inr encoded"
  defines "col \<equiv> \<lambda>name. map (\<lambda>e. the (fst e name)) (elements ds)"
  shows "(\<forall>name \<in> set (map fst all_inputs). map (\<lambda>e. fst e name) (elements ds) = map Some (col name))"
    and "encoded =
      [(''Profile_picture'', CategoryEncoding (adapt_category [map to_int (col ''Profile_picture'')])),
       (''Tweets_Per_Day'', CategoryEncoding (adapt_category [map to_int (col ''Bot_Score'')])),
       (''followers'', Normalization (adapt_normalization fl [map to_float (col ''followers'')])),
       (''following'', Normalization (adapt_normalization fl [map to_float (col ''following'')])),
       (''creation_date'', Normalization (adapt_normalization fl [map to_float (col ''creation_date'')])),
       (''number_of_tweets'', Normalization (adapt_normalization fl [map to_float (col ''number_of_tweets'')])),
       (''Retweet_Ratio'', Normalization (adapt_normalization fl [map to_float (col ''Retweet_Ratio'')])),
       (''Bot_Score'', Normalization (adapt_normalization fl [map to_float (col ''Tweets_Per_Day'')]))]"
proof -
  from enc obtain x0 x1 x2 x3 x4 x5 x6 x7 where
    c0: "encode_integer_categorical_feature (rnds 0) ''Profile_picture'' ''Profile_picture'' ds = Inr x0"
    and c1: "encode_integer_categorical_feature (rnds 1) ''Tweets_Per_Day'' ''Bot_Score'' ds = Inr x1"
    and c2: "encode_numerical_feature fl (rnds 2) ''followers'' ''followers'' ds = Inr x2"
    and c3: "encode_numerical_feature fl (rnds 3) ''following'' ''following'' ds = Inr x3"
    and c4: "encode_numerical_feature fl (rnds 4) ''creation_date'' ''creation_date'' ds = Inr x4"
    and c5: "encode_numerical_feature fl (rnds 5) ''number_of_tweets'' ''number_of_tweets'' ds = Inr x5"
    and c6: "encode_numerical_feature fl (rnds 6) ''Retweet_Ratio'' ''Retweet_Ratio'' ds = Inr x6"
    and c7: "encode_numerical_feature fl (rnds 7) ''Bot_Score'' ''Tweets_Per_Day'' ds = Inr x7"
    and e: "encoded = [x0, x1, x2, x3, x4, x5, x6, x7]"
    unfolding encoded_features_def collect_Cons_Inr by auto
  have d: "map (\<lambda>e. fst e name) (elements ds) = map Some (col name)"
    if "\<forall>e \<in> set (elements ds). fst e name \<noteq> None" for name
    unfolding col_def using that by (rule defined_column)
  note I = encode_integer_categorical_feature_Inr [OF pos] and N = encode_numerical_feature_Inr [OF pos]
  have p0: "map (\<lambda>e. fst e ''Profile_picture'') (elements ds) = map Some (col ''Profile_picture'')"
    by (rule d [OF I [OF c0]])
  have p1: "map (\<lambda>e. fst e ''Bot_Score'') (elements ds) = map Some (col ''Bot_Score'')"
    by (rule d [OF I [OF c1]])
  have p2: "map (\<lambda>e. fst e ''followers'') (elements ds) = map Some (col ''followers'')"
    by (rule d [OF N [OF c2]])
  have p3: "map (\<lambda>e. fst e ''following'') (elements ds) = map Some (col ''following'')"
    by (rule d [OF N [OF c3]])
  have p4: "map (\<lambda>e. fst e ''creation_date'') (elements ds) = map Some (col ''creation_date'')"
    by (rule d [OF N [OF c4]])
  have p5: "map (\<lambda>e. fst e ''number_of_tweets'') (elements ds) = map Some (col ''number_of_tweets'')"
    by (rule d [OF N [OF c5]])
  have p6: "map (\<lambda>e. fst e ''Retweet_Ratio'') (elements ds) = map Some (col ''Retweet_Ratio'')"
    by (rule d [OF N [OF c6]])
  have p7: "map (\<lambda>e. fst e ''Tweets_Per_Day'') (elements ds) = map Some (col ''Tweets_Per_Day'')"
    by (rule d [OF N [OF c7]])
  show "\<forall>name \<in> set (map fst all_inputs). map (\<lambda>e. fst e name) (elements ds) = map Some (col name)"
    unfolding all_inputs_def using p0 p1 p2 p3 p4 p5 p6 p7 by simp
  note RI = encode_integer_categorical_feature_result [OF pos] and RN = encode_numerical_feature_result [OF pos]
  from c0 RI [OF p0, of "rnds 0" "''Profile_picture''"]
  have x0: "x0 = (''Profile_picture'', CategoryEncoding (adapt_category [map to_int (col ''Profile_picture'')]))"
    by simp
  from c1 RI [OF p1, of "rnds 1" "''Tweets_Per_Day''"]
  have x1: "x1 = (''Tweets_Per_Day'', CategoryEncoding (adapt_category [map to_int (col ''Bot_Score'')]))"
    by simp
  from c2 RN [OF p2, of fl "rnds 2" "''followers''"]
  have x2: "x2 = (''followers'', Normalization (adapt_normalization fl [map to_float (col ''followers'')]))"
    by simp
  from c3 RN [OF p3, of fl "rnds 3" "''following''"]
  have x3: "x3 = (''following'', Normalization (adapt_normalization fl [map to_float (col ''following'')]))"
    by simp
  from c4 RN [OF p4, of fl "rnds 4" "''creation_date''"]
  have x4: "x4 = (''creation_date'', Normalization (adapt_normalization fl [map to_float (col ''creation_date'')]))"
    by simp
  from c5 RN [OF p5, of fl "rnds 5" "''number_of_tweets''"]
  have x5: "x5 = (''number_of_tweets'', Normalization (adapt_normalization fl [map to_float (col ''number_of_tweets'')]))"
    by simp
  from c6 RN [OF p6, of fl "rnds 6" "''Retweet_Ratio''"]
  have x6: "x6 = (''Retweet_Ratio'', Normalization (adapt_normalization fl [map to_float (col ''Retweet_Ratio'')]))"
    by simp
  from c7 RN [OF p7, of fl "rnds 7" "''Bot_Score''"]
  have x7: "x7 = (''Bot_Score'', Normalization (adapt_normalization fl [map to_float (col ''Tweets_Per_Day'')]))"
    by simp
  show "encoded =
      [(''Profile_picture'', CategoryEncoding (adapt_category [map to_int (col ''Profile_picture'')])),
       (''Tweets_Per_Day'', CategoryEncoding (adapt_category [map to_int (col ''Bot_Score'')])),
       (''followers'', Normalization (adapt_normalization fl [map to_float (col ''followers'')])),
       (''following'', Normalization (adapt_normalization fl [map to_float (col ''following'')])),
       (''creation_date'', Normalization (adapt_normalization fl [map to_float (col ''creation_date'')])),
       (''number_of_tweets'', Normalization (adapt_normalization fl [map to_float (col ''number_of_tweets'')])),
       (''Retweet_Ratio'', Normalization (adapt_normalization fl [map to_float (col ''Retweet_Ratio'')])),
       (''Bot_Score'', Normalization (adapt_normalization fl [map to_float (col ''Tweets_Per_Day'')]))]"
    unfolding e x0 x1 x2 x3 x4 x5 x6 x7 by (rule refl)
qed

text \<open>The other way round: when every element has the eight columns, the calls return.\<close>

lemma encoded_features_succeeds:
  assumes pos: "0 < buffer_size ds"
    and all: "\<forall>name \<in> set (map fst all_inputs). \<forall>e \<in> set (elements ds). fst e name \<noteq> None"
  shows "\<exists>encoded. encoded_features fl rnds ds = Inr encoded"
proof -
  have d: "map (\<lambda>e. fst e name) (elements ds) = map Some (map (\<lambda>e. the (fst e name)) (elements ds))"
    if "name \<in> set (map fst all_inputs)" for name
    using all that by (intro defined_column) blast
  note RI = encode_integer_categorical_feature_result [OF pos d]
    and RN = encode_numerical_feature_result [OF pos d]
  show ?thesis
    unfolding encoded_features_def
    by (simp add: RI RN all_inputs_def)
qed

lemma run_Inr:
  assumes "run fl rs rnds step w0 df = Inr m"
  shows "\<exists>val train train_ds val_ds encoded.
           train_val_split rs df = Inr (val, train)
           \<and> datasets train val = Inr (train_ds, val_ds)
           \<and> encoded_features fl rnds train_ds = Inr encoded
           \<and> m = fit step rnds train_ds 50 (build_model encoded w0)"
  using assms by (auto simp: run_def split: sum.splits prod.splits)

lemma datasets_Inr:
  assumes "datasets train val = Inr (train_ds, val_ds)"
  shows "fst (dataframe_to_dataset [train, val] 0) = Inr train_ds"
  using assms by (auto simp: datasets_def split: sum.splits prod.splits)

lemma datasets_succeeds:
  assumes "''Bot_or_Not'' \<in> set (columns train)" "rows train \<noteq> []"
    "\<forall>row \<in> set (rows train). snd row ''Bot_or_Not'' \<noteq> None"
    and "''Bot_or_Not'' \<in> set (columns val)" "rows val \<noteq> []"
    "\<forall>row \<in> set (rows val). snd row ''Bot_or_Not'' \<noteq> None"
  shows "\<exists>train_ds val_ds. datasets train val = Inr (train_ds, val_ds)"
proof -
  obtain r1 s1 where 1: "dataframe_to_dataset [train, val] 0 = (r1, s1)" by fastforce
  obtain r2 s2 where 2: "dataframe_to_dataset s1 1 = (r2, s2)" by fastforce
  from dataframe_to_dataset_succeeds [of "[train, val]" 0] assms(1-3) 1
  obtain train_ds where t: "r1 = Inr train_ds" by auto
  have "s1 ! 1 = val"
    using dataframe_to_dataset_store [of 1 "[train, val]" 0] 1 by simp
  with dataframe_to_dataset_succeeds [of s1 1] assms(4-6) 2
  obtain val_ds where v: "r2 = Inr val_ds" by auto
  from 1 2 t v show ?thesis by (simp add: datasets_def)
qed

lemma elements_column:
  assumes "fst (dataframe_to_dataset s r) = Inr ds" and "name \<noteq> ''Bot_or_Not''"
  shows "map (\<lambda>e. fst e name) (elements ds) = map (\<lambda>row. snd row name) (rows (s ! r))"
proof -
  from dataframe_to_dataset_Inr [OF assms(1)] obtain labels where
    l: "map (\<lambda>row. snd row ''Bot_or_Not'') (rows (s ! r)) = map Some labels"
    and el: "elements ds = zip (map (\<lambda>row. (snd row)(''Bot_or_Not'' := None)) (rows (s ! r))) labels"
    by blast
  from l have len: "length labels = length (rows (s ! r))" by (metis length_map)
  have "map (\<lambda>e. fst e name) (elements ds) = map (\<lambda>c. c name) (map fst (elements ds))"
    by simp
  also have "map fst (elements ds) = map (\<lambda>row. (snd row)(''Bot_or_Not'' := None)) (rows (s ! r))"
    unfolding el using len by (simp add: map_fst_zip)
  also have "map (\<lambda>c. c name) \<dots> = map (\<lambda>row. snd row name) (rows (s ! r))"
    using assms(2) by simp
  finally show ?thesis .
qed

lemma encoders_fit: "encoders (fit step rnds train_ds epochs m) = encoders m"
  by (simp add: fit_def)

lemma inputs_fit: "inputs (fit step rnds train_ds epochs m) = inputs m"
  by (simp add: fit_def)

text \<open>The model of a run holds the states adapted from the columns of the training table.\<close>

lemma run_encoders:
  assumes "run fl rs rnds step w0 df = Inr m" and "train_val_split rs df = Inr (val, train)"
  defines "col \<equiv> \<lambda>name. map (\<lambda>row. the (snd row name)) (rows train)"
  shows "(\<forall>name \<in> set (map fst all_inputs). map (\<lambda>row. snd row name) (rows train) = map Some (col name))"
    and "encoders m =
      [(''Profile_picture'', CategoryEncoding (adapt_category [map to_int (col ''Profile_picture'')])),
       (''Tweets_Per_Day'', CategoryEncoding (adapt_category [map to_int (col ''Bot_Score'')])),
       (''followers'', Normalization (adapt_normalization fl [map to_float (col ''followers'')])),
       (''following'', Normalization (adapt_normalization fl [map to_float (col ''following'')])),
       (''creation_date'', Normalization (adapt_normalization fl [map to_float (col ''creation_date'')])),
       (''number_of_tweets'', Normalization (adapt_normalization fl [map to_float (col ''number_of_tweets'')])),
       (''Retweet_Ratio'', Normalization (adapt_normalization fl [map to_float (col ''Retweet_Ratio'')])),
       (''Bot_Score'', Normalization (adapt_normalization fl [map to_float (col ''Tweets_Per_Day'')]))]"
    and "inputs m = all_inputs"
proof -
  from run_Inr [OF assms(1)] assms(2) obtain train_ds val_ds encoded where
    ds: "datasets train val = Inr (train_ds, val_ds)"
    and enc: "encoded_features fl rnds train_ds = Inr encoded"
    and m: "m = fit step rnds train_ds 50 (build_model encoded w0)"
    by auto
  note t = datasets_Inr [OF ds]
  note pos = length_elements(2) [OF t]
  have cols: "map (\<lambda>e. fst e name) (elements train_ds) = map (\<lambda>row. snd row name) (rows train)"
    if "name \<in> set (map fst all_inputs)" for name
    using elements_column [OF t, of name] that by (auto simp: all_inputs_def)
  then have same: "map (\<lambda>e. the (fst e name)) (elements train_ds) = col name"
    if "name \<in> set (map fst all_inputs)" for name
  proof -
    have "map (\<lambda>e. the (fst e name)) (elements train_ds) = map the (map (\<lambda>e. fst e name) (elements train_ds))"
      by simp
    also have "\<dots> = map the (map (\<lambda>row. snd row name) (rows train))"
      by (simp only: cols [OF that])
    finally show ?thesis by (simp add: col_def)
  qed
  note E = encoded_features_Inr [OF pos enc]
  show "\<forall>name \<in> set (map fst all_inputs). map (\<lambda>row. snd row name) (rows train) = map Some (col name)"
    using E(1) cols same by simp
  have "encoders m = encoded" by (simp add: m encoders_fit build_model_def)
  then show "encoders m =
      [(''Profile_picture'', CategoryEncoding (adapt_category [map to_int (col ''Profile_picture'')])),
       (''Tweets_Per_Day'', CategoryEncoding (adapt_category [map to_int (col ''Bot_Score'')])),
       (''followers'', Normalization (adapt_normalization fl [map to_float (col ''followers'')])),
       (''following'', Normalization (adapt_normalization fl [map to_float (col ''following'')])),
       (''creation_date'', Normalization (adapt_normalization fl [map to_float (col ''creation_date'')])),
       (''number_of_tweets'', Normalization (adapt_normalization fl [map to_float (col ''number_of_tweets'')])),
       (''Retweet_Ratio'', Normalization (adapt_normalization fl [map to_float (col ''Retweet_Ratio'')])),
       (''Bot_Score'', Normalization (adapt_normalization fl [map to_float (col ''Tweets_Per_Day'')]))]"
    using E(2) same by (simp add: all_inputs_def)
  show "inputs m = all_inputs" by (simp add: m inputs_fit build_model_def)
qed

lemma train_val_split_columns:
  assumes "train_val_split rs df = Inr (val, train)"
  shows "columns val = columns df" and "columns train = columns df"
  using assms
  by (auto simp: train_val_split_def sample_df_def drop_df_def Let_def split: if_splits)

text \<open>
  The script builds a model for every table with distinct index labels, at least four
  rows, the label column and a cell for the label and for each of the eight features in
  every row.
\<close>

lemma run_succeeds:
  assumes wr: "without_replacement (rs 1337)" and dist: "distinct (index df)"
    and four: "4 \<le> len df" and label: "''Bot_or_Not'' \<in> set (columns df)"
    and cells: "\<forall>row \<in> set (rows df). \<forall>name \<in> set (''Bot_or_Not'' # map fst all_inputs). snd row name \<noteq> None"
  shows "\<exists>m. run fl rs rnds step w0 df = Inr m"
proof -
  from train_val_split_props [of rs df, OF wr] dist obtain val train where
    split: "train_val_split rs df = Inr (val, train)"
    and n: "len val = nat (py_round (15 / 100 * of_nat (len df)))"
    and sub: "set (rows val) \<subseteq> set (rows df)"
    and compl: "set (rows train) = set (rows df) - set (rows val)"
    and sum: "len val + len train = len df"
    by blast
  note b = sample_size_bounds [of "len df"]
  from b(3) four have "1 \<le> py_round (15 / 100 * of_nat (len df))" by linarith
  with n have v1: "1 \<le> len val" by simp
  from b(1,3) four n have "len val < len df" by linarith
  with sum have t1: "1 \<le> len train" by simp
  from v1 t1 have ne: "rows val \<noteq> []" "rows train \<noteq> []" by (auto simp: len_def)
  from compl have sub': "set (rows train) \<subseteq> set (rows df)" by blast
  note c = train_val_split_columns [OF split]
  from cells sub have lv: "\<forall>row \<in> set (rows val). snd row ''Bot_or_Not'' \<noteq> None" by auto
  from cells sub' have lt: "\<forall>row \<in> set (rows train). snd row ''Bot_or_Not'' \<noteq> None" by auto
  from datasets_succeeds [of train val] label c ne lv lt obtain train_ds val_ds where
    ds: "datasets train val = Inr (train_ds, val_ds)" by auto
  note t = datasets_Inr [OF ds]
  have "\<forall>name \<in> set (map fst all_inputs). \<forall>e \<in> set (elements train_ds). fst e name \<noteq> None"
  proof (intro ballI)
    fix name e assume name: "name \<in> set (map fst all_inputs)" and e: "e \<in> set (elements train_ds)"
    then have "name \<noteq> ''Bot_or_Not''" by (auto simp: all_inputs_def)
    from elements_column [OF t this] e
    have "fst e name \<in> set (map (\<lambda>row. snd row name) (rows train))"
      by (metis (no_types, lifting) image_eqI list.set_map nth_Cons_0)
    then obtain row where row: "row \<in> set (rows train)" "fst e name = snd row name" by auto
    from row(1) sub' have "row \<in> set (rows df)" by blast
    with cells name have "snd row name \<noteq> None"
      by (metis list.set_intros(2))
    with row(2) show "fst e name \<noteq> None" by simp
  qed
  from encoded_features_succeeds [OF length_elements(2) [OF t] this, of fl rnds]
  obtain encoded where "encoded_features fl rnds train_ds = Inr encoded" by blast
  with split ds show ?thesis by (simp add: run_def)
qed

lemma accounts_split:
  "train_val_split first_positions accounts =
     Inr (accounts\<lparr>rows := [(0, account 100 50 2010 800 (3 / 10) 1 (1 / 2) 5 1)]\<rparr>, accounts_train)"
  by (simp add: train_val_split_def sample_df_def drop_df_def len_def index_def py_round_def
      Let_def floor_three_fifths first_positions_def accounts_def accounts_train_def)

lemma accounts_other_split:
  "train_val_split first_positions accounts_other =
     Inr (accounts_other\<lparr>rows := [(0, account 7 7000 2020 50000 1 0 40 4 1)]\<rparr>, accounts_train)"
  by (simp add: train_val_split_def sample_df_def drop_df_def len_def index_def py_round_def
      Let_def floor_three_fifths first_positions_def accounts_other_def accounts_train_def)

lemma accounts_run:
  "\<exists>m. run fl first_positions rnds step w0 accounts = Inr m"
  "\<exists>m. run fl first_positions rnds step w0 accounts_other = Inr m"
proof -
  have wr: "without_replacement (first_positions 1337)"
    unfolding first_positions_def by (rule without_replacement_take)
  show "\<exists>m. run fl first_positions rnds step w0 accounts = Inr m"
    by (rule run_succeeds [of first_positions accounts, OF wr])
      (simp_all add: accounts_def index_def len_def account_columns_def account_def all_inputs_def)
  show "\<exists>m. run fl first_positions rnds step w0 accounts_other = Inr m"
    by (rule run_succeeds [of first_positions accounts_other, OF wr])
      (simp_all add: accounts_other_def index_def len_def account_columns_def account_def all_inputs_def)
qed


lemma flatten_example:
  "flatten_to_reference_inputs (map fst all_inputs) input_dict = Inl (MissingData ''Tweets_Per_Day'')"
  by (simp add: all_inputs_def input_dict_def sample_def)



lemma adapt_category_Max:
  assumes "concat arrays \<noteq> []" and "\<forall>c \<in> set (concat arrays). 0 \<le> c"
  shows "int (adapt_category arrays) = Max (set (concat arrays)) + 1"
proof -
  let ?S = "set (concat arrays)"
  have fin: "finite ?S" and ne: "?S \<noteq> {}" using assms(1) by simp_all
  then have "Max ?S \<in> ?S" by (rule Max_in)
  with assms(2) have nonneg: "0 \<le> Max ?S" by blast
  have "Max (insert (- 1) ?S) = max (- 1) (Max ?S)" using fin ne by (rule Max_insert)
  also have "\<dots> = Max ?S" using nonneg by simp
  finally show ?thesis using nonneg by (simp add: adapt_category_def fold_max_set)
qed

section \<open>Claims about the model\<close>

text \<open>
  C5. In the model a run of the script builds, the layer attached to the input
  \<^verbatim>\<open>Tweets_Per_Day\<close> is a category encoding whose state was adapted from the \<^verbatim>\<open>Bot_Score\<close>
  column of the training partition, and the layer attached to the input \<^verbatim>\<open>Bot_Score\<close> is a
  normalization whose state was adapted from the \<^verbatim>\<open>Tweets_Per_Day\<close> column of the training
  partition.
\<close>

theorem encoders_are_cross_wired:
  assumes "run fl rs rnds step w0 dataframe = Inr m"
  shows "\<exists>val train bot_score tweets_per_day.
           train_val_split rs dataframe = Inr (val, train)
           \<and> map (\<lambda>row. snd row ''Bot_Score'') (rows train) = map Some bot_score
           \<and> map (\<lambda>row. snd row ''Tweets_Per_Day'') (rows train) = map Some tweets_per_day
           \<and> map_of (encoders m) ''Tweets_Per_Day'' =
               Some (CategoryEncoding (adapt_category [map to_int bot_score]))
           \<and> map_of (encoders m) ''Bot_Score'' =
               Some (Normalization (adapt_normalization fl [map to_float tweets_per_day]))"
proof -
  from run_Inr [OF assms] obtain val train where
    split: "train_val_split rs dataframe = Inr (val, train)" by blast
  note R = run_encoders [OF assms split]
  let ?col = "\<lambda>name. map (\<lambda>row. the (snd row name)) (rows train)"
  from R(1) have "map (\<lambda>row. snd row ''Bot_Score'') (rows train) = map Some (?col ''Bot_Score'')"
    and "map (\<lambda>row. snd row ''Tweets_Per_Day'') (rows train) = map Some (?col ''Tweets_Per_Day'')"
    by (simp_all add: all_inputs_def)
  moreover have "map_of (encoders m) ''Tweets_Per_Day'' =
      Some (CategoryEncoding (adapt_category [map to_int (?col ''Bot_Score'')]))"
    and "map_of (encoders m) ''Bot_Score'' =
      Some (Normalization (adapt_normalization fl [map to_float (?col ''Tweets_Per_Day'')]))"
    unfolding R(2) by simp_all
  ultimately show ?thesis using split by blast
qed

text \<open>
  The theorem at a run over the table \<open>accounts\<close>: the layer on \<^verbatim>\<open>Tweets_Per_Day\<close> has the
  six elements of the \<^verbatim>\<open>Bot_Score\<close> codes 5, 2, 0 (its own column would give four), and the
  layer on \<^verbatim>\<open>Bot_Score\<close> has the mean and variance of the \<^verbatim>\<open>Tweets_Per_Day\<close> values
  3, 1.5, 0 (its own column would give others).
\<close>

theorem encoders_are_cross_wired_witness:
  "\<exists>m. run (\<lambda>x. x) first_positions (\<lambda>k j. 0) (\<lambda>w b. w) () accounts = Inr m
     \<and> map_of (encoders m) ''Tweets_Per_Day'' = Some (CategoryEncoding 6)
     \<and> adapt_category [map to_int [IntV 5, IntV 2, IntV 0]] = 6
     \<and> adapt_category [map to_int [FloatV 3, FloatV (3 / 2), FloatV 0]] = 4
     \<and> map_of (encoders m) ''Bot_Score'' = Some (Normalization \<lparr>mean = 3 / 2, variance = 3 / 2\<rparr>)
     \<and> adapt_normalization (\<lambda>x. x) [map to_float [FloatV 3, FloatV (3 / 2), FloatV 0]] = \<lparr>mean = 3 / 2, variance = 3 / 2\<rparr>
     \<and> adapt_normalization (\<lambda>x. x) [map to_float [IntV 5, IntV 2, IntV 0]] = \<lparr>mean = 7 / 3, variance = 38 / 9\<rparr>"
proof -
  from accounts_run(1) [of "\<lambda>x. x" "\<lambda>k j. 0" "\<lambda>w b. w" "()"]
  obtain m where m: "run (\<lambda>x. x) first_positions (\<lambda>k j. 0) (\<lambda>w b. w) () accounts = Inr m"
    by (elim exE)
  from encoders_are_cross_wired [OF m] accounts_split obtain bot_score tweets_per_day where
    b: "map (\<lambda>row. snd row ''Bot_Score'') (rows accounts_train) = map Some bot_score"
    and t: "map (\<lambda>row. snd row ''Tweets_Per_Day'') (rows accounts_train) = map Some tweets_per_day"
    and c: "map_of (encoders m) ''Tweets_Per_Day'' =
               Some (CategoryEncoding (adapt_category [map to_int bot_score]))"
    and n: "map_of (encoders m) ''Bot_Score'' =
               Some (Normalization (adapt_normalization (\<lambda>x. x) [map to_float tweets_per_day]))"
    by auto
  have "map (\<lambda>row. snd row ''Bot_Score'') (rows accounts_train) = map Some [IntV 5, IntV 2, IntV 0]"
    by (simp add: accounts_train_def account_def)
  with b have bs: "bot_score = [IntV 5, IntV 2, IntV 0]"
    by (metis list.inj_map_strong option.inject)
  have "map (\<lambda>row. snd row ''Tweets_Per_Day'') (rows accounts_train) = map Some [FloatV 3, FloatV (3 / 2), FloatV 0]"
    by (simp add: accounts_train_def account_def)
  with t have ts: "tweets_per_day = [FloatV 3, FloatV (3 / 2), FloatV 0]"
    by (metis list.inj_map_strong option.inject)
  have c6: "adapt_category [map to_int [IntV 5, IntV 2, IntV 0]] = 6"
    by (simp add: adapt_category_def)
  have c4: "adapt_category [map to_int [FloatV 3, FloatV (3 / 2), FloatV 0]] = 4"
    by (simp add: adapt_category_def)
  have n1: "adapt_normalization (\<lambda>x. x) [map to_float [FloatV 3, FloatV (3 / 2), FloatV 0]] = \<lparr>mean = 3 / 2, variance = 3 / 2\<rparr>"
    by (simp add: adapt_normalization_def Let_def power2_eq_square)
  have n2: "adapt_normalization (\<lambda>x. x) [map to_float [IntV 5, IntV 2, IntV 0]] = \<lparr>mean = 7 / 3, variance = 38 / 9\<rparr>"
    by (simp add: adapt_normalization_def Let_def power2_eq_square)
  from c bs c6 have "map_of (encoders m) ''Tweets_Per_Day'' = Some (CategoryEncoding 6)" by simp
  moreover from n ts n1 have "map_of (encoders m) ''Bot_Score'' = Some (Normalization \<lparr>mean = 3 / 2, variance = 3 / 2\<rparr>)"
    by simp
  ultimately show ?thesis using m c6 c4 n1 n2 by blast
qed

text \<open>
  C8. Two runs of the script under the same rounding, on any tables, with any generators,
  random numbers, optimisers and initial weights, whose training partitions are the same
  table, build models with the same layer states, whatever their validation partitions are. The states
  the fitted model holds are the states adapted from the training dataset (fitting does
  not change them), and inference passes these same states to the forward pass.
\<close>

theorem encoder_state_from_training_partition_only:
  assumes "run fl rs rnds step w0 df = Inr m" and "run fl rs' rnds' step' w0' df' = Inr m'"
    and "train_val_split rs df = Inr (val, train)" and "train_val_split rs' df' = Inr (val', train)"
  shows "encoders m = encoders m'
    \<and> (\<exists>train_ds val_ds. datasets train val = Inr (train_ds, val_ds)
          \<and> encoded_features fl rnds train_ds = Inr (encoders m))
    \<and> (\<forall>net tensors ts. flatten_to_reference_inputs (map fst (inputs m)) tensors = Inr ts \<longrightarrow>
          predict net m tensors =
            Inr (net (weights m) (encoders m) (conform_to_reference_inputs (inputs m) ts)))"
proof (intro conjI allI impI)
  show "encoders m = encoders m'"
    unfolding run_encoders(2) [OF assms(1,3)] run_encoders(2) [OF assms(2,4)] by (rule refl)
  from run_Inr [OF assms(1)] assms(3) obtain train_ds val_ds encoded where
    "datasets train val = Inr (train_ds, val_ds)" "encoded_features fl rnds train_ds = Inr encoded"
    "m = fit step rnds train_ds 50 (build_model encoded w0)" by auto
  then show "\<exists>train_ds val_ds. datasets train val = Inr (train_ds, val_ds)
      \<and> encoded_features fl rnds train_ds = Inr (encoders m)"
    by (auto simp: encoders_fit build_model_def)
next
  fix net and tensors :: "string \<rightharpoonup> val list" and ts
  assume "flatten_to_reference_inputs (map fst (inputs m)) tensors = Inr ts"
  then show "predict net m tensors =
      Inr (net (weights m) (encoders m) (conform_to_reference_inputs (inputs m) ts))"
    by (simp add: predict_def)
qed

text \<open>
  The theorem at two runs over tables that differ in the sampled row, with different
  random numbers and optimisers: the validation partitions differ, the states agree.
\<close>

theorem encoder_state_from_training_partition_only_witness:
  "\<exists>m m' val val' train.
     run (\<lambda>x. x) first_positions (\<lambda>k j. 0) (\<lambda>w b. w) () accounts = Inr m
     \<and> run (\<lambda>x. x) first_positions (\<lambda>k j. k + j) (\<lambda>w b. w + length b) (0 :: nat) accounts_other = Inr m'
     \<and> train_val_split first_positions accounts = Inr (val, train)
     \<and> train_val_split first_positions accounts_other = Inr (val', train)
     \<and> rows val \<noteq> rows val'
     \<and> encoders m = encoders m'"
proof -
  from accounts_run(1) [of "\<lambda>x. x" "\<lambda>k j. 0" "\<lambda>w b. w" "()"]
  obtain m where m: "run (\<lambda>x. x) first_positions (\<lambda>k j. 0) (\<lambda>w b. w) () accounts = Inr m"
    by (elim exE)
  from accounts_run(2) [of "\<lambda>x. x" "\<lambda>k j. k + j" "\<lambda>w b. w + length b" "0 :: nat"]
  obtain m' where
    m': "run (\<lambda>x. x) first_positions (\<lambda>k j. k + j) (\<lambda>w b. w + length b) (0 :: nat) accounts_other = Inr m'"
    by (elim exE)
  let ?val = "accounts\<lparr>rows := [(0, account 100 50 2010 800 (3 / 10) 1 (1 / 2) 5 1)]\<rparr>"
  let ?val' = "accounts_other\<lparr>rows := [(0, account 7 7000 2020 50000 1 0 40 4 1)]\<rparr>"
  have "account 100 50 2010 800 (3 / 10) 1 (1 / 2) 5 1 ''followers'' \<noteq> account 7 7000 2020 50000 1 0 40 4 1 ''followers''"
    by (simp add: account_def)
  then have "account 100 50 2010 800 (3 / 10) 1 (1 / 2) 5 1 \<noteq> account 7 7000 2020 50000 1 0 40 4 1"
    by metis
  then have d: "rows ?val \<noteq> rows ?val'" by simp
  from encoder_state_from_training_partition_only [OF m m' accounts_split accounts_other_split]
  have "encoders m = encoders m'" by blast
  with m m' accounts_split accounts_other_split d show ?thesis by blast
qed

text \<open>
  C1. The example of the script has no entry for the input \<^verbatim>\<open>Tweets_Per_Day\<close>, which is
  one of the eight inputs of every model the script builds. So for every run that builds a
  model, and whatever the forward pass computes, \<^verbatim>\<open>model.predict(input_dict)\<close> raises for
  the missing input and returns no probability; nothing is printed.
\<close>

theorem example_prediction_fails:
  assumes "run fl rs rnds step w0 dataframe = Inr m"
  shows "predict net m input_dict = Inl (MissingData ''Tweets_Per_Day'')
    \<and> ''Tweets_Per_Day'' \<in> set (map fst (inputs m)) \<and> ''Tweets_Per_Day'' \<notin> set (map fst sample)"
proof -
  from run_Inr [OF assms] obtain val train where "train_val_split rs dataframe = Inr (val, train)"
    by blast
  from run_encoders(3) [OF assms this] have i: "inputs m = all_inputs" .
  then have "predict net m input_dict = Inl (MissingData ''Tweets_Per_Day'')"
    by (simp add: predict_def flatten_example)
  moreover have "''Tweets_Per_Day'' \<in> set (map fst (inputs m))" by (simp add: i all_inputs_def)
  moreover have "''Tweets_Per_Day'' \<notin> set (map fst sample)" by (simp add: sample_def)
  ultimately show ?thesis by blast
qed

text \<open>
  The theorem at a run over the table \<open>accounts\<close>.
\<close>

theorem example_prediction_fails_witness:
  "\<exists>m. run (\<lambda>x. x) first_positions (\<lambda>k j. 0) (\<lambda>w b. w) () accounts = Inr m
     \<and> predict (\<lambda>w encoded ts. 1 / 2) m input_dict = Inl (MissingData ''Tweets_Per_Day'')"
proof -
  from accounts_run(1) [of "\<lambda>x. x" "\<lambda>k j. 0" "\<lambda>w b. w" "()"]
  obtain m where m: "run (\<lambda>x. x) first_positions (\<lambda>k j. 0) (\<lambda>w b. w) () accounts = Inr m"
    by (elim exE)
  from example_prediction_fails [OF m, of "\<lambda>w encoded ts. 1 / 2"] m show ?thesis by blast
qed

lemma flatten_missing:
  "\<exists>n \<in> set ns. tensors n = None \<Longrightarrow>
   \<exists>n \<in> set ns. tensors n = None \<and> flatten_to_reference_inputs ns tensors = Inl (MissingData n)"
proof (induction ns)
  case Nil
  then show ?case by simp
next
  case (Cons a ns)
  show ?case
  proof (cases "tensors a")
    case None
    then show ?thesis by simp
  next
    case (Some t)
    with Cons.prems have "\<exists>n \<in> set ns. tensors n = None" by auto
    from Cons.IH [OF this] obtain n where "n \<in> set ns" "tensors n = None"
      "flatten_to_reference_inputs ns tensors = Inl (MissingData n)" by blast
    with Some show ?thesis by auto
  qed
qed

lemma flatten_present:
  "\<forall>n \<in> set ns. tensors n \<noteq> None \<Longrightarrow>
   flatten_to_reference_inputs ns tensors = Inr (map (\<lambda>n. the (tensors n)) ns)"
  by (induction ns) auto

lemma complete_dict_tensors:
  "conform_to_reference_inputs all_inputs (map (\<lambda>n. the (complete_dict n)) (map fst all_inputs)) =
     [[FloatV 100], [FloatV 50], [FloatV 2010], [FloatV 800], [FloatV (3 / 10)],
      [IntV 1], [FloatV 2], [IntV 5]]"
  by (simp add: all_inputs_def complete_dict_def input_dict_def sample_def
      conform_to_reference_inputs_def)

text \<open>
  C6, as the call is made. For every model and every dictionary of tensors: when a name
  of an input of the model has no entry, the call fails with the error that names a
  missing input and returns no probability; when every input has an entry, the call
  returns the value of the forward pass on the tensors cast to the dtypes of their inputs,
  whatever numeric dtype the entries have, and returns it as it is, with no threshold
  applied.
\<close>

theorem predict_fails_on_missing_input_only:
  "((\<exists>n \<in> set (map fst (inputs m)). tensors n = None) \<longrightarrow>
      (\<exists>n \<in> set (map fst (inputs m)). tensors n = None
         \<and> predict net m tensors = Inl (MissingData n)))
   \<and> ((\<forall>n \<in> set (map fst (inputs m)). tensors n \<noteq> None) \<longrightarrow>
      predict net m tensors =
        Inr (net (weights m) (encoders m)
              (conform_to_reference_inputs (inputs m)
                 (map (\<lambda>n. the (tensors n)) (map fst (inputs m))))))"
proof (intro conjI impI)
  assume "\<exists>n \<in> set (map fst (inputs m)). tensors n = None"
  from flatten_missing [OF this]
  show "\<exists>n \<in> set (map fst (inputs m)). tensors n = None \<and> predict net m tensors = Inl (MissingData n)"
    by (auto simp: predict_def)
next
  assume "\<forall>n \<in> set (map fst (inputs m)). tensors n \<noteq> None"
  from flatten_present [OF this]
  show "predict net m tensors =
      Inr (net (weights m) (encoders m)
            (conform_to_reference_inputs (inputs m)
               (map (\<lambda>n. the (tensors n)) (map fst (inputs m)))))"
    by (simp add: predict_def)
qed

text \<open>
  The theorem at the model of a run over \<open>accounts\<close>: the example of the script fails for
  \<^verbatim>\<open>Tweets_Per_Day\<close>, and the completed example, whose integers stand at float inputs,
  reaches the forward pass with these integers cast to floats.
\<close>

theorem predict_fails_on_missing_input_only_witness:
  "\<exists>m. run (\<lambda>x. x) first_positions (\<lambda>k j. 0) (\<lambda>w b. w) () accounts = Inr m
     \<and> (\<forall>net. predict net m input_dict = Inl (MissingData ''Tweets_Per_Day'')
           \<and> predict net m complete_dict =
               Inr (net (weights m) (encoders m)
                     [[FloatV 100], [FloatV 50], [FloatV 2010], [FloatV 800], [FloatV (3 / 10)],
                      [IntV 1], [FloatV 2], [IntV 5]]))"
proof -
  from accounts_run(1) [of "\<lambda>x. x" "\<lambda>k j. 0" "\<lambda>w b. w" "()"]
  obtain m where m: "run (\<lambda>x. x) first_positions (\<lambda>k j. 0) (\<lambda>w b. w) () accounts = Inr m"
    by (elim exE)
  from run_encoders(3) [OF m accounts_split] have i: "inputs m = all_inputs" .
  have names: "map fst (inputs m) =
      [''followers'', ''following'', ''creation_date'', ''number_of_tweets'',
       ''Retweet_Ratio'', ''Profile_picture'', ''Tweets_Per_Day'', ''Bot_Score'']"
    by (simp add: i all_inputs_def)
  have "predict net m input_dict = Inl (MissingData ''Tweets_Per_Day'')
     \<and> predict net m complete_dict =
         Inr (net (weights m) (encoders m)
               [[FloatV 100], [FloatV 50], [FloatV 2010], [FloatV 800], [FloatV (3 / 10)],
                [IntV 1], [FloatV 2], [IntV 5]])" for net
  proof -
    note inst = predict_fails_on_missing_input_only [of m _ net]
    have "\<exists>n \<in> set (map fst (inputs m)). input_dict n = None"
      unfolding names by (simp add: input_dict_def sample_def)
    with inst [of input_dict] obtain n where
      n: "n \<in> set (map fst (inputs m))" "input_dict n = None"
        "predict net m input_dict = Inl (MissingData n)" by blast
    from n(1,2) have "n = ''Tweets_Per_Day''"
      unfolding names by (auto simp: input_dict_def sample_def)
    with n(3) have 1: "predict net m input_dict = Inl (MissingData ''Tweets_Per_Day'')" by simp
    have "\<forall>n \<in> set (map fst (inputs m)). complete_dict n \<noteq> None"
      unfolding names by (simp add: complete_dict_def input_dict_def sample_def)
    with inst [of complete_dict] have "predict net m complete_dict =
        Inr (net (weights m) (encoders m)
              (conform_to_reference_inputs (inputs m)
                 (map (\<lambda>n. the (complete_dict n)) (map fst (inputs m)))))" by blast
    then have 2: "predict net m complete_dict =
           Inr (net (weights m) (encoders m)
                 [[FloatV 100], [FloatV 50], [FloatV 2010], [FloatV 800], [FloatV (3 / 10)],
                  [IntV 1], [FloatV 2], [IntV 5]])"
      unfolding i complete_dict_tensors .
    from 1 2 show ?thesis by blast
  qed
  with m show ?thesis by blast
qed

text \<open>
  The claim promises a type error for a value of the wrong numeric type. The completed
  example supplies integers for the inputs \<^verbatim>\<open>followers\<close> and \<^verbatim>\<open>Tweets_Per_Day\<close>, which
  are \<^verbatim>\<open>float32\<close>, and the call returns the value of the forward pass.
\<close>

theorem integers_for_float_inputs_are_accepted:
  "\<exists>m. run (\<lambda>x. x) first_positions (\<lambda>k j. 0) (\<lambda>w b. w) () accounts = Inr m
     \<and> map_of (inputs m) ''followers'' = Some Float32
     \<and> complete_dict ''followers'' = Some [IntV 100]
     \<and> map_of (inputs m) ''Tweets_Per_Day'' = Some Float32
     \<and> complete_dict ''Tweets_Per_Day'' = Some [IntV 2]
     \<and> (\<forall>net. \<exists>ts. predict net m complete_dict = Inr (net (weights m) (encoders m) ts))"
proof -
  from accounts_run(1) [of "\<lambda>x. x" "\<lambda>k j. 0" "\<lambda>w b. w" "()"]
  obtain m where m: "run (\<lambda>x. x) first_positions (\<lambda>k j. 0) (\<lambda>w b. w) () accounts = Inr m"
    by (elim exE)
  from run_encoders(3) [OF m accounts_split] have i: "inputs m = all_inputs" .
  have "flatten_to_reference_inputs (map fst all_inputs) complete_dict =
      Inr (map (\<lambda>n. the (complete_dict n)) (map fst all_inputs))"
    by (rule flatten_present) (simp add: all_inputs_def complete_dict_def input_dict_def sample_def)
  then have "predict net m complete_dict =
      Inr (net (weights m) (encoders m)
            (conform_to_reference_inputs all_inputs
               (map (\<lambda>n. the (complete_dict n)) (map fst all_inputs))))" for net
    unfolding predict_def i by (simp only: sum.case)
  then have "\<forall>net. \<exists>ts. predict net m complete_dict = Inr (net (weights m) (encoders m) ts)"
    by blast
  moreover have "map_of (inputs m) ''followers'' = Some Float32"
    and "map_of (inputs m) ''Tweets_Per_Day'' = Some Float32"
    by (simp_all add: i all_inputs_def)
  moreover have "complete_dict ''followers'' = Some [IntV 100]"
    and "complete_dict ''Tweets_Per_Day'' = Some [IntV 2]"
    by (simp_all add: complete_dict_def input_dict_def sample_def)
  ultimately show ?thesis using m by blast
qed

section \<open>Properties of the layers\<close>



lemma run_train_nonempty:
  assumes "run fl rs rnds step w0 df = Inr m" and "train_val_split rs df = Inr (val, train)"
  shows "rows train \<noteq> []"
proof -
  from run_Inr [OF assms(1)] assms(2) obtain train_ds val_ds where
    "datasets train val = Inr (train_ds, val_ds)" by auto
  from dataframe_to_dataset_Inr [OF datasets_Inr [OF this]] show ?thesis by auto
qed



lemma accounts_flat_split:
  "train_val_split first_positions accounts_flat =
     Inr (accounts_flat\<lparr>rows := [(0, account 100 50 2010 800 (3 / 10) 1 (1 / 2) 5 1)]\<rparr>,
          accounts_flat_train)"
  by (simp add: train_val_split_def sample_df_def drop_df_def len_def index_def py_round_def
      Let_def floor_three_fifths first_positions_def accounts_flat_def accounts_flat_train_def)

lemma accounts_flat_run: "\<exists>m. run fl first_positions rnds step w0 accounts_flat = Inr m"
proof -
  have wr: "without_replacement (first_positions 1337)"
    unfolding first_positions_def by (rule without_replacement_take)
  show ?thesis
    by (rule run_succeeds [of first_positions accounts_flat, OF wr])
      (simp_all add: accounts_flat_def index_def len_def account_columns_def account_def all_inputs_def)
qed

lemma accounts_train_columns:
  "map (\<lambda>row. the (snd row ''followers'')) (rows accounts_train) = [IntV 10, IntV 250, IntV 40]"
  "map (\<lambda>row. the (snd row ''Tweets_Per_Day'')) (rows accounts_train) = [FloatV 3, FloatV (3 / 2), FloatV 0]"
  "map (\<lambda>row. the (snd row ''Bot_Score'')) (rows accounts_train) = [IntV 5, IntV 2, IntV 0]"
  "map (\<lambda>row. the (snd row ''Profile_picture'')) (rows accounts_train) = [IntV 0, IntV 1, IntV 1]"
  by (simp_all add: accounts_train_def account_def)

lemma accounts_flat_train_columns:
  "map (\<lambda>row. the (snd row ''followers'')) (rows accounts_flat_train) = [IntV 7, IntV 7, IntV 7]"
  "map (\<lambda>row. the (snd row ''following'')) (rows accounts_flat_train) =
     [IntV 16777216, IntV 16777217, IntV 16777216]"
  "map (\<lambda>row. the (snd row ''Tweets_Per_Day'')) (rows accounts_flat_train) = [FloatV 40, FloatV (3 / 2), FloatV 0]"
  "map (\<lambda>row. the (snd row ''Bot_Score'')) (rows accounts_flat_train) = [IntV 5, IntV 2, IntV 0]"
  by (simp_all add: accounts_flat_train_def account_def)




lemma category_call_beyond:
  assumes "int width \<le> c"
  shows "category_call width c = replicate width 0"
proof -
  have "map (\<lambda>i. if int i = c then 1 else 0 :: real) [0..<width] = map (\<lambda>i. 0) [0..<width]"
    using assms by (intro map_cong) auto
  then show ?thesis by (simp add: category_call_def map_replicate_const)
qed

lemma category_one_hot:
  assumes "codes \<noteq> []" and "\<forall>c \<in> set codes. 0 \<le> c"
  defines "width \<equiv> adapt_category [codes]"
  shows "int width = Max (set codes) + 1"
    and "card (set codes) \<le> width"
    and "\<forall>c \<in> set codes.
           length (category_call width c) = width \<and> nat c < width
           \<and> (\<forall>i < width. category_call width c ! i = (if i = nat c then 1 else 0))"
proof -
  let ?S = "set codes"
  from adapt_category_Max [of "[codes]"] assms(1,2)
  show w: "int width = Max ?S + 1" by (simp add: width_def)
  have le: "c \<le> Max ?S" if "c \<in> ?S" for c using that by simp
  have lt: "nat c < width" and c0: "0 \<le> c" if "c \<in> ?S" for c
  proof -
    from assms(2) that show "0 \<le> c" by blast
    with le [OF that] w show "nat c < width" by linarith
  qed
  have "?S \<subseteq> int ` {..<width}"
  proof
    fix c assume c: "c \<in> ?S"
    from c0 [OF c] lt [OF c] show "c \<in> int ` {..<width}"
      by (metis image_eqI int_nat_eq lessThan_iff)
  qed
  then have "card ?S \<le> card (int ` {..<width})"
    by (intro card_mono) simp_all
  also have "\<dots> \<le> width"
    by (metis card_image_le card_lessThan finite_lessThan)
  finally show "card ?S \<le> width" .
  show "\<forall>c \<in> set codes.
           length (category_call width c) = width \<and> nat c < width
           \<and> (\<forall>i < width. category_call width c ! i = (if i = nat c then 1 else 0))"
  proof (intro ballI conjI allI impI)
    fix c assume c: "c \<in> ?S"
    show "length (category_call width c) = width" by (simp add: category_call_def)
    show "nat c < width" by (rule lt [OF c])
    fix i assume "i < width"
    with c0 [OF c] show "category_call width c ! i = (if i = nat c then 1 else 0)"
      by (auto simp: category_call_def)
  qed
qed

section \<open>Claims about the layers\<close>




text \<open>
  C2, for the two layers \<^verbatim>\<open>encode_integer_categorical_feature\<close> builds (lines 248 and
  249): the layer on the input \<^verbatim>\<open>Profile_picture\<close>, adapted from the column of that name,
  and the layer on the input \<^verbatim>\<open>Tweets_Per_Day\<close>, adapted from the column \<^verbatim>\<open>Bot_Score\<close>. In
  every model a run builds, a code at or beyond the number of elements of the layer gets
  the vector of zeros: no position is set aside for codes that were not seen. When the
  codes of the training column the layer is adapted from are non-negative, the number of
  elements is the largest of them plus one, which is at least the number of distinct
  codes, and the output for each of these codes has that length and has a one at the
  position equal to the code and zeros elsewhere.
\<close>

theorem category_encoders_index_by_code:
  assumes "run fl rs rnds step w0 dataframe = Inr m"
    and "(feature, name) \<in> set [(''Profile_picture'', ''Profile_picture''),
                                  (''Tweets_Per_Day'', ''Bot_Score'')]"
  shows "\<exists>val train column codes width.
           train_val_split rs dataframe = Inr (val, train)
           \<and> map (\<lambda>row. snd row name) (rows train) = map Some column
           \<and> codes = map to_int column \<and> codes \<noteq> []
           \<and> map_of (encoders m) feature = Some (CategoryEncoding width)
           \<and> (\<forall>c. int width \<le> c \<longrightarrow> category_call width c = replicate width 0)
           \<and> ((\<forall>c \<in> set codes. 0 \<le> c) \<longrightarrow>
                 int width = Max (set codes) + 1
                 \<and> card (set codes) \<le> width
                 \<and> (\<forall>c \<in> set codes.
                       length (category_call width c) = width \<and> nat c < width
                       \<and> (\<forall>i < width. category_call width c ! i = (if i = nat c then 1 else 0))))"
proof -
  from run_Inr [OF assms(1)] obtain val train where
    split: "train_val_split rs dataframe = Inr (val, train)" by blast
  note R = run_encoders [OF assms(1) split]
  define column where "column = map (\<lambda>row. the (snd row name)) (rows train)"
  define codes where "codes = map to_int column"
  define width where "width = adapt_category [codes]"
  from assms(2) have "name \<in> set (map fst all_inputs)"
    by (auto simp: all_inputs_def)
  with R(1) have col: "map (\<lambda>row. snd row name) (rows train) = map Some column"
    unfolding column_def by blast
  have enc: "map_of (encoders m) feature = Some (CategoryEncoding width)"
    unfolding R(2) width_def codes_def column_def using assms(2) by auto
  from run_train_nonempty [OF assms(1) split] have ne: "codes \<noteq> []"
    by (simp add: codes_def column_def)
  have beyond: "\<forall>c. int width \<le> c \<longrightarrow> category_call width c = replicate width 0"
    by (simp add: category_call_beyond)
  note C = category_one_hot [OF ne, folded width_def]
  have hot: "(\<forall>c \<in> set codes. 0 \<le> c) \<longrightarrow>
       int width = Max (set codes) + 1
       \<and> card (set codes) \<le> width
       \<and> (\<forall>c \<in> set codes.
             length (category_call width c) = width \<and> nat c < width
             \<and> (\<forall>i < width. category_call width c ! i = (if i = nat c then 1 else 0)))"
    using C by blast
  from split col ne enc beyond hot show ?thesis
    by (intro exI [of _ val] exI [of _ train] exI [of _ column] exI [of _ codes] exI [of _ width])
      (simp add: codes_def [symmetric])
qed

text \<open>
  The theorem at a run over the table \<open>accounts\<close>, for both layers: the codes 0, 1, 1 of
  \<^verbatim>\<open>Profile_picture\<close> give two elements, the codes 5, 2, 0 of \<^verbatim>\<open>Bot_Score\<close> give six.
\<close>

theorem category_encoders_index_by_code_witness:
  "\<exists>m. run (\<lambda>x. x) first_positions (\<lambda>k j. 0) (\<lambda>w b. w) () accounts = Inr m
     \<and> map_of (encoders m) ''Profile_picture'' = Some (CategoryEncoding 2)
     \<and> category_call 2 1 ! 1 = 1 \<and> category_call 2 1 ! 0 = 0
     \<and> map_of (encoders m) ''Tweets_Per_Day'' = Some (CategoryEncoding 6)
     \<and> length (category_call 6 2) = 6 \<and> category_call 6 2 ! 2 = 1 \<and> category_call 6 2 ! 5 = 0
     \<and> category_call 6 6 = replicate 6 0"
proof -
  from accounts_run(1) [of "\<lambda>x. x" "\<lambda>k j. 0" "\<lambda>w b. w" "()"]
  obtain m where m: "run (\<lambda>x. x) first_positions (\<lambda>k j. 0) (\<lambda>w b. w) () accounts = Inr m"
    by (elim exE)
  have p: "(''Profile_picture'', ''Profile_picture'') \<in> set [(''Profile_picture'', ''Profile_picture''),
      (''Tweets_Per_Day'', ''Bot_Score'')]" by simp
  have t: "(''Tweets_Per_Day'', ''Bot_Score'') \<in> set [(''Profile_picture'', ''Profile_picture''),
      (''Tweets_Per_Day'', ''Bot_Score'')]" by simp
  from category_encoders_index_by_code [OF m p] obtain val train column codes width where
    split: "train_val_split first_positions accounts = Inr (val, train)"
    and col: "map (\<lambda>row. snd row ''Profile_picture'') (rows train) = map Some column"
    and codes: "codes = map to_int column"
    and enc: "map_of (encoders m) ''Profile_picture'' = Some (CategoryEncoding width)"
    and hot: "(\<forall>c \<in> set codes. 0 \<le> c) \<longrightarrow>
       int width = Max (set codes) + 1
       \<and> card (set codes) \<le> width
       \<and> (\<forall>c \<in> set codes.
             length (category_call width c) = width \<and> nat c < width
             \<and> (\<forall>i < width. category_call width c ! i = (if i = nat c then 1 else 0)))"
    by (elim exE conjE) (rule that)
  from split accounts_split have "train = accounts_train" by simp
  then have "map (\<lambda>row. snd row ''Profile_picture'') (rows train) = map Some [IntV 0, IntV 1, IntV 1]"
    by (simp add: accounts_train_def account_def)
  with col have "column = [IntV 0, IntV 1, IntV 1]"
    by (metis list.inj_map_strong option.inject)
  then have c: "codes = [0, 1, 1]" by (simp add: codes)
  have nn: "\<forall>c \<in> set codes. 0 \<le> c" and one: "1 \<in> set codes"
    by (simp_all add: c)
  from hot nn have "int width = Max (set codes) + 1" by blast
  then have w2: "width = 2" by (simp add: c)
  from hot nn one
  have h: "\<forall>i < width. category_call width 1 ! i = (if i = nat 1 then 1 else 0)"
    by blast
  from h [unfolded w2, rule_format, of 1] h [unfolded w2, rule_format, of 0]
  have P: "category_call 2 1 ! 1 = 1" "category_call 2 1 ! 0 = 0"
    by simp_all
  from category_encoders_index_by_code [OF m t] obtain val' train' column' codes' width' where
    split': "train_val_split first_positions accounts = Inr (val', train')"
    and col': "map (\<lambda>row. snd row ''Bot_Score'') (rows train') = map Some column'"
    and codes': "codes' = map to_int column'"
    and enc': "map_of (encoders m) ''Tweets_Per_Day'' = Some (CategoryEncoding width')"
    and beyond': "\<forall>c. int width' \<le> c \<longrightarrow> category_call width' c = replicate width' 0"
    and hot': "(\<forall>c \<in> set codes'. 0 \<le> c) \<longrightarrow>
       int width' = Max (set codes') + 1
       \<and> card (set codes') \<le> width'
       \<and> (\<forall>c \<in> set codes'.
             length (category_call width' c) = width' \<and> nat c < width'
             \<and> (\<forall>i < width'. category_call width' c ! i = (if i = nat c then 1 else 0)))"
    by (elim exE conjE) (rule that)
  from split' accounts_split have "train' = accounts_train" by simp
  then have "map (\<lambda>row. snd row ''Bot_Score'') (rows train') = map Some [IntV 5, IntV 2, IntV 0]"
    by (simp add: accounts_train_def account_def)
  with col' have "column' = [IntV 5, IntV 2, IntV 0]"
    by (metis list.inj_map_strong option.inject)
  then have c': "codes' = [5, 2, 0]" by (simp add: codes')
  have nn': "\<forall>c \<in> set codes'. 0 \<le> c" and two: "2 \<in> set codes'"
    by (simp_all add: c')
  from hot' nn' have "int width' = Max (set codes') + 1" by blast
  then have w6: "width' = 6" by (simp add: c')
  from hot' nn' two
  have l': "length (category_call width' 2) = width'"
    and h': "\<forall>i < width'. category_call width' 2 ! i = (if i = nat 2 then 1 else 0)"
    by blast+
  from h' [unfolded w6, rule_format, of 2] h' [unfolded w6, rule_format, of 5]
  have T: "category_call 6 2 ! 2 = 1" "category_call 6 2 ! 5 = 0"
    by simp_all
  from beyond' [unfolded w6, rule_format, of 6]
  have B: "category_call 6 6 = replicate 6 0" by simp
  from m enc enc' P T B l' show ?thesis
    unfolding w2 w6 by (intro exI [of _ m] conjI)
qed

text \<open>
  With the training codes 0, 1, 1 the claim promises two positions and a reserved one,
  three in all; the layer on \<^verbatim>\<open>Profile_picture\<close> has two, both positions of codes that were
  seen, and the unseen code 2 gets the vector of zeros. The layer on \<^verbatim>\<open>Tweets_Per_Day\<close> has
  the six elements of the \<^verbatim>\<open>Bot_Score\<close> codes, so the training value 40 of its own input
  gets the vector of zeros as well.
\<close>

theorem category_encoder_has_no_slot_for_unseen_codes:
  "(\<exists>m val. run (\<lambda>x. x) first_positions (\<lambda>k j. 0) (\<lambda>w b. w) () accounts = Inr m
      \<and> train_val_split first_positions accounts = Inr (val, accounts_train)
      \<and> map (\<lambda>row. snd row ''Profile_picture'') (rows accounts_train) =
            map Some [IntV 0, IntV 1, IntV 1]
      \<and> card (set (map to_int [IntV 0, IntV 1, IntV 1])) + 1 = 3
      \<and> map_of (encoders m) ''Profile_picture'' = Some (CategoryEncoding 2)
      \<and> category_call 2 0 = [1, 0] \<and> category_call 2 1 = [0, 1] \<and> category_call 2 2 = [0, 0])
   \<and> (\<exists>m val. run (\<lambda>x. x) first_positions (\<lambda>k j. 0) (\<lambda>w b. w) () accounts_flat = Inr m
      \<and> train_val_split first_positions accounts_flat = Inr (val, accounts_flat_train)
      \<and> map (\<lambda>row. snd row ''Tweets_Per_Day'') (rows accounts_flat_train) =
            map Some [FloatV 40, FloatV (3 / 2), FloatV 0]
      \<and> map_of (encoders m) ''Tweets_Per_Day'' = Some (CategoryEncoding 6)
      \<and> category_call 6 (to_int (FloatV 40)) = [0, 0, 0, 0, 0, 0])"
proof (intro conjI)
  from accounts_run(1) [of "\<lambda>x. x" "\<lambda>k j. 0" "\<lambda>w b. w" "()"]
  obtain m where m: "run (\<lambda>x. x) first_positions (\<lambda>k j. 0) (\<lambda>w b. w) () accounts = Inr m"
    by (elim exE)
  note R = run_encoders(2) [OF m accounts_split]
  have col: "map (\<lambda>row. snd row ''Profile_picture'') (rows accounts_train) =
      map Some [IntV 0, IntV 1, IntV 1]"
    by (simp add: accounts_train_def account_def)
  have card: "card (set (map to_int [IntV 0, IntV 1, IntV 1])) + 1 = 3"
    by (simp only: card_set) simp
  have enc: "map_of (encoders m) ''Profile_picture'' = Some (CategoryEncoding 2)"
    unfolding R accounts_train_columns by (simp add: adapt_category_def)
  have calls: "category_call 2 0 = [1, 0]" "category_call 2 1 = [0, 1]" "category_call 2 2 = [0, 0]"
    by (simp_all add: category_call_def upt_conv_Cons)
  from m accounts_split col card enc calls
  show "\<exists>m val. run (\<lambda>x. x) first_positions (\<lambda>k j. 0) (\<lambda>w b. w) () accounts = Inr m
      \<and> train_val_split first_positions accounts = Inr (val, accounts_train)
      \<and> map (\<lambda>row. snd row ''Profile_picture'') (rows accounts_train) =
            map Some [IntV 0, IntV 1, IntV 1]
      \<and> card (set (map to_int [IntV 0, IntV 1, IntV 1])) + 1 = 3
      \<and> map_of (encoders m) ''Profile_picture'' = Some (CategoryEncoding 2)
      \<and> category_call 2 0 = [1, 0] \<and> category_call 2 1 = [0, 1] \<and> category_call 2 2 = [0, 0]"
    by (intro exI [of _ m] exI conjI)
next
  from accounts_flat_run [of "\<lambda>x. x" "\<lambda>k j. 0" "\<lambda>w b. w" "()"]
  obtain m where m: "run (\<lambda>x. x) first_positions (\<lambda>k j. 0) (\<lambda>w b. w) () accounts_flat = Inr m"
    by (elim exE)
  note R = run_encoders(2) [OF m accounts_flat_split]
  have col: "map (\<lambda>row. snd row ''Tweets_Per_Day'') (rows accounts_flat_train) =
      map Some [FloatV 40, FloatV (3 / 2), FloatV 0]"
    by (simp add: accounts_flat_train_def account_def)
  have enc: "map_of (encoders m) ''Tweets_Per_Day'' = Some (CategoryEncoding 6)"
    unfolding R accounts_flat_train_columns by (simp add: adapt_category_def)
  have call: "category_call 6 (to_int (FloatV 40)) = [0, 0, 0, 0, 0, 0]"
    by (simp add: category_call_def upt_conv_Cons)
  from m accounts_flat_split col enc call
  show "\<exists>m val. run (\<lambda>x. x) first_positions (\<lambda>k j. 0) (\<lambda>w b. w) () accounts_flat = Inr m
      \<and> train_val_split first_positions accounts_flat = Inr (val, accounts_flat_train)
      \<and> map (\<lambda>row. snd row ''Tweets_Per_Day'') (rows accounts_flat_train) =
            map Some [FloatV 40, FloatV (3 / 2), FloatV 0]
      \<and> map_of (encoders m) ''Tweets_Per_Day'' = Some (CategoryEncoding 6)
      \<and> category_call 6 (to_int (FloatV 40)) = [0, 0, 0, 0, 0, 0]"
    by (intro exI [of _ m] exI conjI)
qed

end
